theory Spec2Isabelle
  imports Complex_Main
begin

section \<open>The data of \<^verbatim>\<open>player_ai.py\<close>\<close>

text \<open>
  The module holds one class, \<^verbatim>\<open>PlayerAi\<close>, whose method \<^verbatim>\<open>run\<close> the game engine calls
  once per tick. The engine owns the bases and vehicles; the agent reads their attributes
  and calls their command methods. Here an engine object is a record of the attributes the
  code reads, a command method call is an entry appended to a log, and Python's numbers are
  idealised: floats are \<^typ>\<open>real\<close>, integers are \<^typ>\<open>int\<close>. A uid is any hashable value of
  the engine; natural numbers stand for them.
\<close>

type_synonym uid = nat

text \<open>Attributes common to every engine object the code touches: \<^verbatim>\<open>uid\<close>, \<^verbatim>\<open>x\<close>, \<^verbatim>\<open>y\<close>.\<close>

record entity =
  uid :: uid
  x :: real
  y :: real

text \<open>A base: \<^verbatim>\<open>mines\<close>, \<^verbatim>\<open>crystal\<close> and the method \<^verbatim>\<open>cost(kind)\<close>.\<close>

record base = entity +
  mines :: int
  crystal :: real
  cost :: "string \<Rightarrow> real"

text \<open>A tank or a jet: \<^verbatim>\<open>position\<close> (a two-element array) and the flag \<^verbatim>\<open>stopped\<close>.\<close>

record vehicle = entity +
  position :: "real \<times> real"
  stopped :: bool

text \<open>A ship also has its \<^verbatim>\<open>owner\<close> base and the method \<^verbatim>\<open>get_distance(x, y)\<close>.\<close>

record ship = vehicle +
  owner :: base
  get_distance :: "real \<Rightarrow> real \<Rightarrow> real"

text \<open>
  A team record is a dictionary in which each of the keys \<^verbatim>\<open>"bases"\<close>, \<^verbatim>\<open>"tanks"\<close>,
  \<^verbatim>\<open>"ships"\<close>, \<^verbatim>\<open>"jets"\<close> may be missing: \<open>None\<close> is the missing key. \<^verbatim>\<open>info\<close> is a
  dictionary from team names to team records; its iteration order matters to the sorts
  below, so it is an association list (with distinct keys, as a dictionary has).
\<close>

record team =
  bases :: "base list option"
  tanks :: "vehicle list option"
  ships :: "ship list option"
  jets :: "vehicle list option"

type_synonym info = "(string \<times> team) list"

text \<open>
  The command methods the code calls, as log entries. \<open>Tank_goto u b r\<close> is the call
  \<^verbatim>\<open>tank.goto(*tank_target)\<close> on the tank \<open>u\<close> with the base \<open>b\<close>; \<open>r\<close> tells whether the
  call raised (the code catches that exception).
\<close>

datatype command =
    Build_mine uid
  | Build_tank uid real
  | Build_ship uid real
  | Build_jet uid real
  | Set_heading uid real
  | Tank_goto uid base bool
  | Convert_to_base uid
  | Goto uid real real

datatype py_error = KeyError | IndexError

text \<open>
  The attributes of \<^verbatim>\<open>PlayerAi\<close> set in \<^verbatim>\<open>__init__\<close> (the three dictionaries), extended with
  what a call changes outside the object: \<open>draws\<close> counts the calls of
  \<^verbatim>\<open>np.random.random()\<close> made so far, \<open>issued\<close> is the log of commands. The random
  generator is a parameter \<open>random :: nat \<Rightarrow> real\<close>: its \<open>n\<close>-th draw is \<open>random n\<close>.
  The attribute \<^verbatim>\<open>team\<close> is assigned once, to \<^verbatim>\<open>CREATOR\<close>.
\<close>

record state =
  previous_positions :: "uid \<rightharpoonup> real \<times> real"
  ntanks :: "uid \<rightharpoonup> int"
  nships :: "uid \<rightharpoonup> int"
  draws :: nat
  issued :: "command list"

definition CREATOR :: string where
  "CREATOR = ''The Wise Riders''"

definition init :: state where
  "init = \<lparr>previous_positions = Map.empty, ntanks = Map.empty, nships = Map.empty,
           draws = 0, issued = []\<rparr>"

section \<open>The build orders\<close>

definition issue :: "command \<Rightarrow> state \<Rightarrow> state" where
  "issue c s = s\<lparr>issued := issued s @ [c]\<rparr>"

text \<open>
  \<^verbatim>\<open>base.build_tank(heading=360 * np.random.random())\<close> and its siblings: one draw, one
  command carrying the heading.
\<close>

definition build :: "(nat \<Rightarrow> real) \<Rightarrow> (real \<Rightarrow> command) \<Rightarrow> state \<Rightarrow> state" where
  "build random c s = (issue (c (360 * random (draws s))) s)\<lparr>draws := Suc (draws s)\<rparr>"

text \<open>
  \<^verbatim>\<open>if base.uid not in self.ntanks: self.ntanks[base.uid] = 0\<close>, and the same for
  \<^verbatim>\<open>nships\<close>.
\<close>

definition register :: "base \<Rightarrow> state \<Rightarrow> state" where
  "register b s =
     s\<lparr>ntanks := (case ntanks s (uid b) of None \<Rightarrow> (ntanks s)(uid b \<mapsto> 0) | Some _ \<Rightarrow> ntanks s),
       nships := (case nships s (uid b) of None \<Rightarrow> (nships s)(uid b \<mapsto> 0) | Some _ \<Rightarrow> nships s)\<rparr>"

text \<open>
  \<^verbatim>\<open>self.ntanks[base.uid]\<close> read after the registration: the key is present then, so the
  default of \<open>counter\<close> is never what is read.
\<close>

definition counter :: "(uid \<rightharpoonup> int) \<Rightarrow> uid \<Rightarrow> int" where
  "counter m u = (case m u of None \<Rightarrow> 0 | Some n \<Rightarrow> n)"

definition add_tank :: "base \<Rightarrow> state \<Rightarrow> state" where
  "add_tank b s = s\<lparr>ntanks := (ntanks s)(uid b \<mapsto> counter (ntanks s) (uid b) + 1)\<rparr>"

definition add_ship :: "base \<Rightarrow> state \<Rightarrow> state" where
  "add_ship b s = s\<lparr>nships := (nships s)(uid b \<mapsto> counter (nships s) (uid b) + 1)\<rparr>"

text \<open>The body of the loop of \<^verbatim>\<open>strategy_early\<close>, for one base.\<close>

definition early_base :: "(nat \<Rightarrow> real) \<Rightarrow> base \<Rightarrow> state \<Rightarrow> state" where
  "early_base random b s0 =
     (let s = register b s0 in
      if mines b < 3 then
        (if crystal b > cost b ''mine'' then issue (Build_mine (uid b)) s else s)
      else if crystal b > cost b ''tank'' \<and> counter (ntanks s) (uid b) < 2 then
        add_tank b (build random (Build_tank (uid b)) s)
      else if crystal b > cost b ''ship'' \<and> counter (nships s) (uid b) < 6 then
        add_ship b (build random (Build_ship (uid b)) s)
      else if crystal b > cost b ''tank'' \<and> counter (ntanks s) (uid b) < 5
              \<and> counter (nships s) (uid b) \<ge> 6 then
        add_tank b (build random (Build_tank (uid b)) s)
      else if crystal b > cost b ''jet'' then
        build random (Build_jet (uid b)) s
      else s)"

text \<open>The body of the loop of \<^verbatim>\<open>strategy_midgame\<close>.\<close>

definition midgame_base :: "(nat \<Rightarrow> real) \<Rightarrow> base \<Rightarrow> state \<Rightarrow> state" where
  "midgame_base random b s0 =
     (let s = register b s0 in
      if mines b < 2 then
        (if crystal b > cost b ''mine'' then issue (Build_mine (uid b)) s else s)
      else if crystal b > cost b ''tank'' \<and> counter (ntanks s) (uid b) < 2 then
        add_tank b (build random (Build_tank (uid b)) s)
      else if crystal b > cost b ''ship'' \<and> counter (nships s) (uid b) < 2 then
        add_ship b (build random (Build_ship (uid b)) s)
      else if crystal b > cost b ''jet'' then
        build random (Build_jet (uid b)) s
      else s)"

text \<open>The body of the loop of \<^verbatim>\<open>strategy_lategame\<close>.\<close>

definition lategame_base :: "(nat \<Rightarrow> real) \<Rightarrow> base \<Rightarrow> state \<Rightarrow> state" where
  "lategame_base random b s0 =
     (let s = register b s0 in
      if crystal b > cost b ''jet'' then build random (Build_jet (uid b)) s else s)"

text \<open>
  A strategy starts with \<^verbatim>\<open>myinfo = info[self.team]\<close> and loops over
  \<^verbatim>\<open>myinfo["bases"]\<close>: both subscripts raise \<^verbatim>\<open>KeyError\<close> on a missing key. The result
  is the exception raised, if any, and the state reached.
\<close>

definition strategy ::
  "(base \<Rightarrow> state \<Rightarrow> state) \<Rightarrow> info \<Rightarrow> state \<Rightarrow> py_error option \<times> state" where
  "strategy body info s =
     (case map_of info CREATOR of
        None \<Rightarrow> (Some KeyError, s)
      | Some myinfo \<Rightarrow>
          (case bases myinfo of
             None \<Rightarrow> (Some KeyError, s)
           | Some bs \<Rightarrow> (None, fold body bs s)))"

definition strategy_early :: "(nat \<Rightarrow> real) \<Rightarrow> info \<Rightarrow> state \<Rightarrow> py_error option \<times> state" where
  "strategy_early random = strategy (early_base random)"

definition strategy_midgame :: "(nat \<Rightarrow> real) \<Rightarrow> info \<Rightarrow> state \<Rightarrow> py_error option \<times> state" where
  "strategy_midgame random = strategy (midgame_base random)"

definition strategy_lategame :: "(nat \<Rightarrow> real) \<Rightarrow> info \<Rightarrow> state \<Rightarrow> py_error option \<times> state" where
  "strategy_lategame random = strategy (lategame_base random)"

section \<open>The vehicles\<close>

text \<open>
  Lines 58 to 67 of \<^verbatim>\<open>run\<close>: a target taken from the first base of each enemy team that
  has the key \<^verbatim>\<open>"bases"\<close>. The value is overwritten before any use, but the subscript
  \<^verbatim>\<open>info[name]["bases"][0]\<close> raises \<^verbatim>\<open>IndexError\<close> on an empty list.
\<close>

fun first_bases :: "info \<Rightarrow> (real \<times> real) option \<Rightarrow> py_error + (real \<times> real) option" where
  "first_bases [] target = Inr target"
| "first_bases ((name, r) # rest) target =
     (if name \<noteq> CREATOR then
        (case bases r of
           None \<Rightarrow> first_bases rest target
         | Some [] \<Rightarrow> Inl IndexError
         | Some (b # _) \<Rightarrow> first_bases rest (Some (x b, y b)))
      else first_bases rest target)"

definition first_target :: "info \<Rightarrow> py_error + (real \<times> real) option" where
  "first_target info = (if length info > 1 then first_bases info None else Inr None)"

text \<open>\<^verbatim>\<open>d.get(key, [])\<close> on a team record.\<close>

definition get_list :: "'a list option \<Rightarrow> 'a list" where
  "get_list v = (case v of None \<Rightarrow> [] | Some l \<Rightarrow> l)"

text \<open>
  \<^verbatim>\<open>[base for name in info for base in info[name].get('bases', []) if name != self.team]\<close>
\<close>

definition enemy_bases :: "info \<Rightarrow> base list" where
  "enemy_bases info =
     concat (map (\<lambda>(name, r). if name \<noteq> CREATOR then get_list (bases r) else []) info)"

text \<open>\<^verbatim>\<open>unit.set_heading(np.random.random() * 360.0)\<close>\<close>

definition set_heading :: "(nat \<Rightarrow> real) \<Rightarrow> uid \<Rightarrow> state \<Rightarrow> state" where
  "set_heading random u s = (issue (Set_heading u (random (draws s) * 360)) s)\<lparr>draws := Suc (draws s)\<rparr>"

text \<open>
  The body of the tank loop. Python's \<^verbatim>\<open>sorted\<close> is stable, and so is \<open>sort_key\<close>.
  \<open>goto_raises\<close> is the engine's side of \<^verbatim>\<open>tank.goto(*tank_target)\<close>: whether the
  statement raises. Its argument is the base object itself, unpacked by \<^verbatim>\<open>*\<close>, not a list
  of coordinates as for the jets; what the unpacking yields, and whether it raises before
  \<^verbatim>\<open>goto\<close> is entered, is decided by the engine's class of bases. The \<^verbatim>\<open>try\<close> block
  swallows the exception, so both outcomes continue alike.
\<close>

definition tank_control ::
  "(nat \<Rightarrow> real) \<Rightarrow> (vehicle \<Rightarrow> base \<Rightarrow> bool) \<Rightarrow> info \<Rightarrow> vehicle \<Rightarrow> state \<Rightarrow> state" where
  "tank_control random goto_raises info tank s0 =
     (let nearest_base =
            sort_key (\<lambda>b. (x b - x tank) ^ 2 + (y b - y tank) ^ 2) (enemy_bases info);
          tank_target = (case nearest_base of [] \<Rightarrow> None | b # _ \<Rightarrow> Some b);
          s = (case previous_positions s0 (uid tank) of
                 None \<Rightarrow> s0
               | Some p \<Rightarrow>
                   if stopped tank then s0
                   else if position tank = p then set_heading random (uid tank) s0
                   else (case tank_target of
                           None \<Rightarrow> s0
                         | Some b \<Rightarrow>
                             if goto_raises tank b
                             then issue (Tank_goto (uid tank) b True) s0
                             else issue (Tank_goto (uid tank) b False) s0))
      in s\<lparr>previous_positions := (previous_positions s)(uid tank \<mapsto> position tank)\<rparr>)"

text \<open>The body of the ship loop.\<close>

definition ship_control :: "(nat \<Rightarrow> real) \<Rightarrow> ship \<Rightarrow> state \<Rightarrow> state" where
  "ship_control random ship s0 =
     (let s = (case previous_positions s0 (uid ship) of
                 None \<Rightarrow> s0
               | Some p \<Rightarrow>
                   if position ship = p then
                     (if get_distance ship (x (owner ship)) (y (owner ship)) > 20
                      then issue (Convert_to_base (uid ship)) s0
                      else set_heading random (uid ship) s0)
                   else s0)
      in s\<lparr>previous_positions := (previous_positions s)(uid ship \<mapsto> position ship)\<rparr>)"

text \<open>The two scores of lines 111 to 115.\<close>

definition determine_base_power :: "base \<Rightarrow> real" where
  "determine_base_power b = real_of_int (mines b) * 10 + crystal b / 10"

definition determine_power :: "team \<Rightarrow> real" where
  "determine_power r =
     100 * real (length (get_list (bases r)))
       + sum_list (map determine_base_power (get_list (bases r)))"

text \<open>Lines 109 to 130: the target of the jets.\<close>

definition power_target :: "info \<Rightarrow> (real \<times> real) option" where
  "power_target info =
     (if length info > 1 then
        (let teams = map snd (filter (\<lambda>(name, r). name \<noteq> CREATOR) info);
             by_power = sort_key determine_power teams
         in case by_power of
              [] \<Rightarrow> None
            | _ # _ \<Rightarrow>
                (let strongest_enemy = last by_power in
                 case bases strongest_enemy of
                   None \<Rightarrow> Some (75, 75)
                 | Some bs \<Rightarrow>
                     (let strongest_base = sort_key determine_base_power bs in
                      case strongest_base of
                        [] \<Rightarrow> Some (75, 75)
                      | _ # _ \<Rightarrow> Some (x (last strongest_base), y (last strongest_base)))))
      else None)"

text \<open>The body of the jet loop: \<^verbatim>\<open>jet.goto(*target)\<close> when there is a target.\<close>

definition jet_control :: "(real \<times> real) option \<Rightarrow> vehicle \<Rightarrow> state \<Rightarrow> state" where
  "jet_control target jet s =
     (case target of None \<Rightarrow> s | Some (tx, ty) \<Rightarrow> issue (Goto (uid jet) tx ty) s)"

section \<open>The entry point\<close>

text \<open>
  Lines 56 to 137 of \<^verbatim>\<open>run\<close>, entered with the outcome of the strategy. An exception
  ends the call; what was done before it stays done.
\<close>

definition control ::
  "(nat \<Rightarrow> real) \<Rightarrow> (vehicle \<Rightarrow> base \<Rightarrow> bool) \<Rightarrow> info \<Rightarrow> py_error option \<times> state
     \<Rightarrow> py_error option \<times> state" where
  "control random goto_raises info r =
     (case r of
        (Some e, s) \<Rightarrow> (Some e, s)
      | (None, s) \<Rightarrow>
          (case map_of info CREATOR of
             None \<Rightarrow> (Some KeyError, s)
           | Some myinfo \<Rightarrow>
               (case first_target info of
                  Inl e \<Rightarrow> (Some e, s)
                | Inr _ \<Rightarrow>
                    (let s1 = (case tanks myinfo of
                                 None \<Rightarrow> s
                               | Some ts \<Rightarrow> fold (tank_control random goto_raises info) ts s);
                         s2 = (case ships myinfo of
                                 None \<Rightarrow> s1
                               | Some ss \<Rightarrow> fold (ship_control random) ss s1);
                         target = power_target info;
                         s3 = (case jets myinfo of
                                 None \<Rightarrow> s2
                               | Some js \<Rightarrow> fold (jet_control target) js s2)
                     in (None, s3)))))"

text \<open>\<^verbatim>\<open>run(t, dt, info, game_map)\<close>; \<^verbatim>\<open>dt\<close> and \<^verbatim>\<open>game_map\<close> are never read.\<close>

definition run ::
  "(nat \<Rightarrow> real) \<Rightarrow> (vehicle \<Rightarrow> base \<Rightarrow> bool) \<Rightarrow> real \<Rightarrow> info \<Rightarrow> state
     \<Rightarrow> py_error option \<times> state" where
  "run random goto_raises t info s =
     control random goto_raises info
       (if t < 180 then strategy_early random info s
        else if t < 360 then strategy_midgame random info s
        else strategy_lategame random info s)"


section \<open>Reading the log\<close>

text \<open>The commands issued between a state and a later one.\<close>

definition commands :: "state \<Rightarrow> state \<Rightarrow> command list" where
  "commands s s' = drop (length (issued s)) (issued s')"

text \<open>A construction on the base \<open>u\<close>; a tank (ship) construction on it.\<close>

fun builds :: "uid \<Rightarrow> command \<Rightarrow> bool" where
  "builds u (Build_mine v) = (v = u)"
| "builds u (Build_tank v h) = (v = u)"
| "builds u (Build_ship v h) = (v = u)"
| "builds u (Build_jet v h) = (v = u)"
| "builds u (Set_heading v h) = False"
| "builds u (Tank_goto v b r) = False"
| "builds u (Convert_to_base v) = False"
| "builds u (Goto v a b) = False"

fun builds_tank :: "uid \<Rightarrow> command \<Rightarrow> bool" where
  "builds_tank u (Build_tank v h) = (v = u)"
| "builds_tank u (Build_mine v) = False"
| "builds_tank u (Build_ship v h) = False"
| "builds_tank u (Build_jet v h) = False"
| "builds_tank u (Set_heading v h) = False"
| "builds_tank u (Tank_goto v b r) = False"
| "builds_tank u (Convert_to_base v) = False"
| "builds_tank u (Goto v a b) = False"

fun builds_ship :: "uid \<Rightarrow> command \<Rightarrow> bool" where
  "builds_ship u (Build_ship v h) = (v = u)"
| "builds_ship u (Build_mine v) = False"
| "builds_ship u (Build_tank v h) = False"
| "builds_ship u (Build_jet v h) = False"
| "builds_ship u (Set_heading v h) = False"
| "builds_ship u (Tank_goto v b r) = False"
| "builds_ship u (Convert_to_base v) = False"
| "builds_ship u (Goto v a b) = False"

text \<open>A command addressed to the vehicle \<open>u\<close>; a heading given to it.\<close>

fun to_unit :: "uid \<Rightarrow> command \<Rightarrow> bool" where
  "to_unit u (Set_heading v h) = (v = u)"
| "to_unit u (Tank_goto v b r) = (v = u)"
| "to_unit u (Convert_to_base v) = (v = u)"
| "to_unit u (Goto v a b) = (v = u)"
| "to_unit u (Build_mine v) = False"
| "to_unit u (Build_tank v h) = False"
| "to_unit u (Build_ship v h) = False"
| "to_unit u (Build_jet v h) = False"

fun sets_heading :: "uid \<Rightarrow> command \<Rightarrow> bool" where
  "sets_heading u (Set_heading v h) = (v = u)"
| "sets_heading u (Tank_goto v b r) = False"
| "sets_heading u (Convert_to_base v) = False"
| "sets_heading u (Goto v a b) = False"
| "sets_heading u (Build_mine v) = False"
| "sets_heading u (Build_tank v h) = False"
| "sets_heading u (Build_ship v h) = False"
| "sets_heading u (Build_jet v h) = False"

text \<open>The bases of the agent's own team, none when a strategy would raise.\<close>

definition own_bases :: "info \<Rightarrow> base list" where
  "own_bases info = (case map_of info CREATOR of None \<Rightarrow> [] | Some r \<Rightarrow> get_list (bases r))"

text \<open>The loop body a call selects, and a sequence of calls on one agent.\<close>

definition body_at :: "(nat \<Rightarrow> real) \<Rightarrow> real \<Rightarrow> base \<Rightarrow> state \<Rightarrow> state" where
  "body_at random t =
     (if t < 180 then early_base random
      else if t < 360 then midgame_base random
      else lategame_base random)"

definition run_seq ::
  "(nat \<Rightarrow> real) \<Rightarrow> (vehicle \<Rightarrow> base \<Rightarrow> bool) \<Rightarrow> (real \<times> info) list \<Rightarrow> state \<Rightarrow> state" where
  "run_seq random goto_raises ticks s =
     fold (\<lambda>(t, info) s. snd (run random goto_raises t info s)) ticks s"

text \<open>
  The early build order in the words of the specification, with one amendment: a base
  with fewer than three mines that cannot afford a mine builds nothing. \<open>nt\<close> and \<open>ns\<close>
  are the tanks and ships built at the base so far, \<open>h\<close> the heading drawn.
\<close>

definition early_build :: "base \<Rightarrow> int \<Rightarrow> int \<Rightarrow> real \<Rightarrow> command list" where
  "early_build b nt ns h =
     (if mines b < 3 then (if cost b ''mine'' < crystal b then [Build_mine (uid b)] else [])
      else if nt < 2 \<and> cost b ''tank'' < crystal b then [Build_tank (uid b) h]
      else if ns < 6 \<and> cost b ''ship'' < crystal b then [Build_ship (uid b) h]
      else if nt < 5 \<and> ns \<ge> 6 \<and> cost b ''tank'' < crystal b then [Build_tank (uid b) h]
      else if cost b ''jet'' < crystal b then [Build_jet (uid b) h]
      else [])"

text \<open>Filling the missing keys \<^verbatim>\<open>"tanks"\<close>, \<^verbatim>\<open>"ships"\<close>, \<^verbatim>\<open>"jets"\<close> with empty lists.\<close>

definition fill_team :: "team \<Rightarrow> team" where
  "fill_team r = r\<lparr>tanks := Some (get_list (tanks r)), ships := Some (get_list (ships r)),
                   jets := Some (get_list (jets r))\<rparr>"

definition fill :: "info \<Rightarrow> info" where
  "fill info = map (\<lambda>(name, r). (name, fill_team r)) info"

section \<open>What the loops do\<close>

text \<open>
  What the body of a strategy's loop does to the state, whatever the phase: at most one
  command, a construction on the base at hand, the two counters of that base registered
  and raised by the tanks and ships built, nothing else changed.
\<close>

definition base_step :: "(base \<Rightarrow> state \<Rightarrow> state) \<Rightarrow> bool" where
  "base_step f \<longleftrightarrow>
     (\<forall>b s. \<exists>cs. issued (f b s) = issued s @ cs \<and> length cs \<le> 1
        \<and> (\<forall>c\<in>set cs. builds (uid b) c)
        \<and> ntanks (f b s) =
            (ntanks s)(uid b \<mapsto> counter (ntanks s) (uid b) + int (length (filter (builds_tank (uid b)) cs)))
        \<and> nships (f b s) =
            (nships s)(uid b \<mapsto> counter (nships s) (uid b) + int (length (filter (builds_ship (uid b)) cs)))
        \<and> previous_positions (f b s) = previous_positions s
        \<and> draws s \<le> draws (f b s))"

definition vehicle_step :: "('a vehicle_scheme \<Rightarrow> state \<Rightarrow> state) \<Rightarrow> bool" where
  "vehicle_step f \<longleftrightarrow>
     (\<forall>a s. \<exists>cs. issued (f a s) = issued s @ cs \<and> length cs \<le> 1
        \<and> (\<forall>c\<in>set cs. to_unit (uid a) c)
        \<and> ntanks (f a s) = ntanks s \<and> nships (f a s) = nships s
        \<and> draws s \<le> draws (f a s)
        \<and> previous_positions (f a s) = (previous_positions s)(uid a \<mapsto> position a))"

text \<open>The three loops of a call that reaches them.\<close>

definition vehicles :: "(nat \<Rightarrow> real) \<Rightarrow> (vehicle \<Rightarrow> base \<Rightarrow> bool) \<Rightarrow> info \<Rightarrow> team \<Rightarrow> state \<Rightarrow> state" where
  "vehicles random g info r s =
     fold (jet_control (power_target info)) (get_list (jets r))
       (fold (ship_control random) (get_list (ships r))
         (fold (tank_control random g info) (get_list (tanks r)) s))"

text \<open>The parts of \<open>power_target\<close>: the enemy teams, and the target within a team.\<close>

definition enemy_teams :: "info \<Rightarrow> team list" where
  "enemy_teams info = map snd (filter (\<lambda>(name, r). name \<noteq> CREATOR) info)"

definition base_target :: "team \<Rightarrow> real \<times> real" where
  "base_target r =
     (case bases r of
        None \<Rightarrow> (75, 75)
      | Some bs \<Rightarrow>
          (case sort_key determine_base_power bs of
             [] \<Rightarrow> (75, 75)
           | _ # _ \<Rightarrow> (x (last (sort_key determine_base_power bs)),
                        y (last (sort_key determine_base_power bs)))))"

text \<open>The command \<^verbatim>\<open>jet.goto(*target)\<close>.\<close>

fun is_goto :: "command \<Rightarrow> bool" where
  "is_goto (Goto v a b) = True"
| "is_goto (Set_heading v h) = False"
| "is_goto (Tank_goto v b r) = False"
| "is_goto (Convert_to_base v) = False"
| "is_goto (Build_mine v) = False"
| "is_goto (Build_tank v h) = False"
| "is_goto (Build_ship v h) = False"
| "is_goto (Build_jet v h) = False"

section \<open>Example inputs\<close>

text \<open>A random generator with values in \<open>[0, 1)\<close>, all distinct: 0, 1/2, 2/3, ...\<close>

definition ramp :: "nat \<Rightarrow> real" where
  "ramp n = real n / (real n + 1)"

definition never :: "vehicle \<Rightarrow> base \<Rightarrow> bool" where
  "never tank b = False"

definition always :: "vehicle \<Rightarrow> base \<Rightarrow> bool" where
  "always tank b = True"

definition flat :: "string \<Rightarrow> real" where
  "flat kind = 50"

definition dear_mine :: "string \<Rightarrow> real" where
  "dear_mine kind = (if kind = ''mine'' then 200 else 50)"

definition no_team :: team where
  "no_team = \<lparr>bases = None, tanks = None, ships = None, jets = None\<rparr>"

text \<open>The bases of the end-to-end scenario of the specification.\<close>

definition home :: base where
  "home = \<lparr>uid = 1, x = 0, y = 0, mines = 0, crystal = 100, cost = flat\<rparr>"

definition enemy_home :: base where
  "enemy_home = \<lparr>uid = 2, x = 10, y = 10, mines = 1, crystal = 20, cost = flat\<rparr>"

definition saving :: base where
  "saving = \<lparr>uid = 1, x = 0, y = 0, mines = 0, crystal = 100, cost = dear_mine\<rparr>"

definition mined :: base where
  "mined = \<lparr>uid = 1, x = 0, y = 0, mines = 3, crystal = 100, cost = flat\<rparr>"

definition tank7 :: vehicle where
  "tank7 = \<lparr>uid = 7, x = 3, y = 4, position = (3, 4), stopped = False\<rparr>"

definition jet9 :: vehicle where
  "jet9 = \<lparr>uid = 9, x = 1, y = 1, position = (1, 1), stopped = False\<rparr>"

definition ship8 :: ship where
  "ship8 = \<lparr>uid = 8, x = 30, y = 40, position = (30, 40), stopped = False,
            owner = home, get_distance = (+)\<rparr>"

definition scenario :: info where
  "scenario = [(''The Wise Riders'', no_team\<lparr>bases := Some [home]\<rparr>),
               (''Enemy'', no_team\<lparr>bases := Some [enemy_home]\<rparr>)]"

text \<open>The snapshot in which the agent's team has the one base \<open>b\<close> and there is no enemy.\<close>

definition lone :: "base \<Rightarrow> info" where
  "lone b = [(''The Wise Riders'', no_team\<lparr>bases := Some [b]\<rparr>)]"

text \<open>An agent that has built one tank and one ship at the base 1.\<close>

definition veteran :: state where
  "veteran = init\<lparr>ntanks := [1 \<mapsto> 1], nships := [1 \<mapsto> 1]\<rparr>"

text \<open>An enemy base farther from \<open>tank7\<close> than \<open>enemy_home\<close>, and snapshots with them.\<close>

definition far_base :: base where
  "far_base = \<lparr>uid = 3, x = 50, y = 50, mines = 2, crystal = 500, cost = flat\<rparr>"

definition two_enemies :: info where
  "two_enemies = [(''The Wise Riders'', no_team\<lparr>bases := Some [home], tanks := Some [tank7]\<rparr>),
                  (''Far'', no_team\<lparr>bases := Some [far_base]\<rparr>),
                  (''Near'', no_team\<lparr>bases := Some [enemy_home]\<rparr>)]"

text \<open>An agent that saw \<open>tank7\<close> and \<open>ship8\<close> where they are now; one that saw them elsewhere.\<close>

definition stuck :: state where
  "stuck = init\<lparr>previous_positions := [7 \<mapsto> (3, 4), 8 \<mapsto> (30, 40)]\<rparr>"


text \<open>\<open>ship8\<close> is at distance 0 from its owner by its \<open>get_distance\<close>; this one is at 25.\<close>

definition far_ship :: ship where
  "far_ship = ship8\<lparr>get_distance := (\<lambda>a b. 25)\<rparr>"

text \<open>The snapshot in which the agent's team record has no key at all.\<close>

definition bare :: info where
  "bare = [(''The Wise Riders'', no_team)]"

text \<open>A snapshot with one jet of the agent and an enemy whose list of bases is empty.\<close>

definition empty_enemy :: info where
  "empty_enemy = [(''The Wise Riders'', no_team\<lparr>bases := Some [], jets := Some [jet9]\<rparr>),
                  (''Enemy'', no_team\<lparr>bases := Some []\<rparr>)]"

text \<open>A team with a base, a tank, a ship and a jet, facing one enemy base.\<close>

definition fleet_team :: team where
  "fleet_team = \<lparr>bases = Some [home], tanks = Some [tank7], ships = Some [ship8],
                  jets = Some [jet9]\<rparr>"

definition fleet :: info where
  "fleet = [(''The Wise Riders'', fleet_team), (''Enemy'', no_team\<lparr>bases := Some [enemy_home]\<rparr>)]"

text \<open>A snapshot with \<open>tank7\<close> alone: the agent has no base and there is no enemy.\<close>

definition patrol :: info where
  "patrol = [(''The Wise Riders'', no_team\<lparr>bases := Some [], tanks := Some [tank7]\<rparr>)]"

text \<open>The agent after one call, and after two, on that snapshot.\<close>

definition once :: "state \<Rightarrow> state" where
  "once s = snd (run ramp never 0 patrol s)"

definition twice :: "state \<Rightarrow> state" where
  "twice s = snd (run ramp never 1 patrol (once s))"

text \<open>
  A snapshot in which the agent's record has a tank and a ship but not the key
  \<^verbatim>\<open>"bases"\<close>; and the fleet with \<open>far_ship\<close> in the place of \<open>ship8\<close>.
\<close>

definition no_bases :: info where
  "no_bases = [(''The Wise Riders'', no_team\<lparr>tanks := Some [tank7], ships := Some [far_ship]\<rparr>)]"

definition far_fleet_team :: team where
  "far_fleet_team = \<lparr>bases = Some [home], tanks = Some [tank7], ships = Some [far_ship],
                      jets = Some [jet9]\<rparr>"

definition far_fleet :: info where
  "far_fleet = [(''The Wise Riders'', far_fleet_team),
                (''Enemy'', no_team\<lparr>bases := Some [enemy_home]\<rparr>)]"

lemmas eval_defs = control_def strategy_early_def strategy_midgame_def strategy_lategame_def
  strategy_def CREATOR_def init_def early_base_def midgame_base_def lategame_base_def
  register_def build_def issue_def add_tank_def add_ship_def counter_def first_target_def
  tank_control_def ship_control_def enemy_bases_def get_list_def set_heading_def
  power_target_def determine_power_def determine_base_power_def jet_control_def commands_def
  ramp_def never_def always_def flat_def dear_mine_def no_team_def home_def enemy_home_def
  saving_def mined_def tank7_def jet9_def ship8_def scenario_def

section \<open>The build orders, base by base\<close>

lemma commandsI: "issued s' = issued s @ cs \<Longrightarrow> commands s s' = cs"
  by (simp add: commands_def)

lemma builds_unique: "builds u c \<Longrightarrow> builds v c \<Longrightarrow> u = v"
  by (cases c) auto

lemma builds_tank_builds: "builds_tank u c \<Longrightarrow> builds u c"
  by (cases c) auto

lemma builds_ship_builds: "builds_ship u c \<Longrightarrow> builds u c"
  by (cases c) auto

lemma to_unit_not_builds: "to_unit u c \<Longrightarrow> \<not> builds v c"
  by (cases c) auto

lemma counter_upd: "counter (m(u \<mapsto> n)) u = n"
  by (simp add: counter_def)

lemma register_counter:
  "counter (ntanks (register b s)) (uid b) = counter (ntanks s) (uid b)"
  "counter (nships (register b s)) (uid b) = counter (nships s) (uid b)"
  by (simp_all add: register_def counter_def split: option.splits)

lemma register_ntanks:
  "ntanks (register b s) = (ntanks s)(uid b \<mapsto> counter (ntanks s) (uid b))"
  "nships (register b s) = (nships s)(uid b \<mapsto> counter (nships s) (uid b))"
  by (auto simp add: register_def counter_def split: option.splits)

lemma register_other:
  "issued (register b s) = issued s" "draws (register b s) = draws s"
  "previous_positions (register b s) = previous_positions s"
  by (simp_all add: register_def)

lemma early_base_commands:
  "issued (early_base random b s) =
     issued s @ early_build b (counter (ntanks s) (uid b)) (counter (nships s) (uid b))
                  (360 * random (draws s))"
  by (simp add: early_base_def early_build_def Let_def register_counter register_other
        issue_def build_def add_tank_def add_ship_def)

lemma early_base_step: "base_step (early_base random)"
  unfolding base_step_def
  by (auto simp add: early_base_def Let_def register_counter register_other register_ntanks
        issue_def build_def add_tank_def add_ship_def counter_upd)

lemma midgame_base_step: "base_step (midgame_base random)"
  unfolding base_step_def
  by (auto simp add: midgame_base_def Let_def register_counter register_other register_ntanks
        issue_def build_def add_tank_def add_ship_def counter_upd)

lemma lategame_base_step: "base_step (lategame_base random)"
  unfolding base_step_def
  by (auto simp add: lategame_base_def Let_def register_counter register_other register_ntanks
        issue_def build_def add_tank_def add_ship_def counter_upd)

lemma body_at_step: "base_step (body_at random t)"
  by (simp add: body_at_def early_base_step midgame_base_step lategame_base_step)


lemma base_stepD:
  assumes "base_step f"
  obtains cs where "issued (f b s) = issued s @ cs" "length cs \<le> 1"
    "\<forall>c\<in>set cs. builds (uid b) c"
    "ntanks (f b s) =
       (ntanks s)(uid b \<mapsto> counter (ntanks s) (uid b) + int (length (filter (builds_tank (uid b)) cs)))"
    "nships (f b s) =
       (nships s)(uid b \<mapsto> counter (nships s) (uid b) + int (length (filter (builds_ship (uid b)) cs)))"
    "previous_positions (f b s) = previous_positions s" "draws s \<le> draws (f b s)"
  using assms unfolding base_step_def by blast

lemma filter_none: "\<forall>c\<in>set cs. \<not> P c \<Longrightarrow> filter P cs = []"
  by (induction cs) auto

lemma filter_all: "\<forall>c\<in>set cs. P c \<Longrightarrow> filter P cs = cs"
  by (induction cs) auto

lemma builds_other: "\<forall>c\<in>set cs. builds v c \<Longrightarrow> u \<noteq> v \<Longrightarrow> filter (builds u) cs = []"
  by (rule filter_none) (auto dest: builds_unique)

lemma builds_tank_other: "\<forall>c\<in>set cs. builds v c \<Longrightarrow> u \<noteq> v \<Longrightarrow> filter (builds_tank u) cs = []"
  by (rule filter_none) (auto dest: builds_unique builds_tank_builds)

lemma builds_ship_other: "\<forall>c\<in>set cs. builds v c \<Longrightarrow> u \<noteq> v \<Longrightarrow> filter (builds_ship u) cs = []"
  by (rule filter_none) (auto dest: builds_unique builds_ship_builds)

lemma fold_accounting:
  assumes f: "base_step f"
  shows "\<exists>cs. issued (fold f bs s) = issued s @ cs
      \<and> (\<forall>c\<in>set cs. \<exists>b\<in>set bs. builds (uid b) c)
      \<and> (\<forall>u. ntanks (fold f bs s) u =
              (if u \<in> uid ` set bs \<or> ntanks s u \<noteq> None
               then Some (counter (ntanks s) u + int (length (filter (builds_tank u) cs)))
               else None))
      \<and> (\<forall>u. nships (fold f bs s) u =
              (if u \<in> uid ` set bs \<or> nships s u \<noteq> None
               then Some (counter (nships s) u + int (length (filter (builds_ship u) cs)))
               else None))
      \<and> previous_positions (fold f bs s) = previous_positions s
      \<and> draws s \<le> draws (fold f bs s)
      \<and> (distinct (map uid bs) \<longrightarrow> (\<forall>u. length (filter (builds u) cs) \<le> 1))"
proof (induction bs arbitrary: s)
  case Nil
  show ?case by (auto simp: counter_def)
next
  case (Cons b bs)
  obtain cs1 where 1: "issued (f b s) = issued s @ cs1" "length cs1 \<le> 1"
    "\<forall>c\<in>set cs1. builds (uid b) c"
    "ntanks (f b s) =
       (ntanks s)(uid b \<mapsto> counter (ntanks s) (uid b) + int (length (filter (builds_tank (uid b)) cs1)))"
    "nships (f b s) =
       (nships s)(uid b \<mapsto> counter (nships s) (uid b) + int (length (filter (builds_ship (uid b)) cs1)))"
    "previous_positions (f b s) = previous_positions s" "draws s \<le> draws (f b s)"
    using f by (rule base_stepD)
  from Cons.IH [of "f b s"] obtain cs2 where 2:
    "issued (fold f bs (f b s)) = issued (f b s) @ cs2"
    "\<forall>c\<in>set cs2. \<exists>b\<in>set bs. builds (uid b) c"
    "\<forall>u. ntanks (fold f bs (f b s)) u =
              (if u \<in> uid ` set bs \<or> ntanks (f b s) u \<noteq> None
               then Some (counter (ntanks (f b s)) u + int (length (filter (builds_tank u) cs2)))
               else None)"
    "\<forall>u. nships (fold f bs (f b s)) u =
              (if u \<in> uid ` set bs \<or> nships (f b s) u \<noteq> None
               then Some (counter (nships (f b s)) u + int (length (filter (builds_ship u) cs2)))
               else None)"
    "previous_positions (fold f bs (f b s)) = previous_positions (f b s)"
    "draws (f b s) \<le> draws (fold f bs (f b s))"
    "distinct (map uid bs) \<longrightarrow> (\<forall>u. length (filter (builds u) cs2) \<le> 1)"
    by blast
  have other: "filter (builds u) cs1 = []" "filter (builds_tank u) cs1 = []"
    "filter (builds_ship u) cs1 = []" if "u \<noteq> uid b" for u
    using 1(3) that by (simp_all add: builds_other builds_tank_other builds_ship_other)
  have a: "issued (fold f (b # bs) s) = issued s @ (cs1 @ cs2)"
    using 1(1) 2(1) by simp
  have b: "\<forall>c\<in>set (cs1 @ cs2). \<exists>b'\<in>set (b # bs). builds (uid b') c"
    using 1(3) 2(2) by auto
  have c: "ntanks (fold f (b # bs) s) u =
              (if u \<in> uid ` set (b # bs) \<or> ntanks s u \<noteq> None
               then Some (counter (ntanks s) u + int (length (filter (builds_tank u) (cs1 @ cs2))))
               else None)" for u
  proof (cases "u = uid b")
    case True
    then show ?thesis using 2(3) 1(4) by (simp add: counter_upd)
  next
    case False
    then show ?thesis using 2(3) 1(4) other(2) [OF False] by (simp add: counter_def)
  qed
  have d: "nships (fold f (b # bs) s) u =
              (if u \<in> uid ` set (b # bs) \<or> nships s u \<noteq> None
               then Some (counter (nships s) u + int (length (filter (builds_ship u) (cs1 @ cs2))))
               else None)" for u
  proof (cases "u = uid b")
    case True
    then show ?thesis using 2(4) 1(5) by (simp add: counter_upd)
  next
    case False
    then show ?thesis using 2(4) 1(5) other(3) [OF False] by (simp add: counter_def)
  qed
  have e: "length (filter (builds u) (cs1 @ cs2)) \<le> 1" if dist: "distinct (map uid (b # bs))" for u
  proof (cases "u = uid b")
    case True
    have "\<forall>c\<in>set cs2. \<not> builds u c"
    proof
      fix c assume "c \<in> set cs2"
      then obtain b' where "b' \<in> set bs" "builds (uid b') c" using 2(2) by blast
      moreover have "uid b' \<noteq> u" using dist True \<open>b' \<in> set bs\<close> by (metis distinct.simps(2) imageI list.simps(9) list.set_map)
      ultimately show "\<not> builds u c" by (auto dest: builds_unique)
    qed
    then have "filter (builds u) cs2 = []" by (rule filter_none)
    moreover have "length (filter (builds u) cs1) \<le> length cs1" by (rule length_filter_le)
    ultimately show ?thesis using 1(2) by (simp del: length_filter_le)
  next
    case False
    then show ?thesis using other(1) [OF False] 2(7) dist by simp
  qed
  have f: "previous_positions (fold f (b # bs) s) = previous_positions s"
    "draws s \<le> draws (fold f (b # bs) s)"
    using 1(6,7) 2(5,6) by simp_all
  show ?case
    apply (rule exI [of _ "cs1 @ cs2"])
    using a b c d e f by blast
qed

lemma fold_local:
  assumes f: "base_step f" and "distinct (map uid bs)" and "b \<in> set bs"
  shows "\<exists>s1. ntanks s1 (uid b) = ntanks s (uid b) \<and> nships s1 (uid b) = nships s (uid b)
     \<and> draws s \<le> draws s1
     \<and> filter (builds (uid b)) (commands s (fold f bs s)) = commands s1 (f b s1)"
  using assms(2,3)
proof (induction bs arbitrary: s)
  case Nil
  then show ?case by simp
next
  case (Cons a bs)
  obtain cs1 where 1: "issued (f a s) = issued s @ cs1"
    "\<forall>c\<in>set cs1. builds (uid a) c"
    "ntanks (f a s) =
       (ntanks s)(uid a \<mapsto> counter (ntanks s) (uid a) + int (length (filter (builds_tank (uid a)) cs1)))"
    "nships (f a s) =
       (nships s)(uid a \<mapsto> counter (nships s) (uid a) + int (length (filter (builds_ship (uid a)) cs1)))"
    "draws s \<le> draws (f a s)"
    using f by (rule base_stepD)
  from fold_accounting [OF f, of bs "f a s"] obtain cs2 where 2:
    "issued (fold f bs (f a s)) = issued (f a s) @ cs2"
    "\<forall>c\<in>set cs2. \<exists>b\<in>set bs. builds (uid b) c"
    by blast
  have all: "commands s (fold f (a # bs) s) = cs1 @ cs2"
    using 1(1) 2(1) by (simp add: commandsI)
  show ?case
  proof (cases "b = a")
    case True
    have "\<forall>c\<in>set cs2. \<not> builds (uid b) c"
    proof
      fix c assume "c \<in> set cs2"
      then obtain b' where "b' \<in> set bs" "builds (uid b') c" using 2(2) by blast
      moreover have "uid b' \<noteq> uid b" using Cons.prems(1) True \<open>b' \<in> set bs\<close> by (metis distinct.simps(2) imageI list.simps(9) list.set_map)
      ultimately show "\<not> builds (uid b) c" by (auto dest: builds_unique)
    qed
    then have "filter (builds (uid b)) cs2 = []" by (rule filter_none)
    moreover have "filter (builds (uid b)) cs1 = cs1" using 1(2) True by (simp add: filter_all)
    moreover have "commands s (f b s) = cs1" using 1(1) True by (simp add: commandsI)
    ultimately have "filter (builds (uid b)) (commands s (fold f (a # bs) s)) = commands s (f b s)"
      using all by simp
    then show ?thesis by blast
  next
    case False
    then have mem: "b \<in> set bs" and dist: "distinct (map uid bs)"
      using Cons.prems by auto
    have ne: "uid b \<noteq> uid a"
      using Cons.prems(1) mem by (metis distinct.simps(2) imageI list.simps(9) list.set_map)
    from Cons.IH [OF dist mem, of "f a s"] obtain s1 where 3:
      "ntanks s1 (uid b) = ntanks (f a s) (uid b)" "nships s1 (uid b) = nships (f a s) (uid b)"
      "draws (f a s) \<le> draws s1"
      "filter (builds (uid b)) (commands (f a s) (fold f bs (f a s))) = commands s1 (f b s1)"
      by blast
    have "commands (f a s) (fold f bs (f a s)) = cs2" using 2(1) by (simp add: commandsI)
    moreover have "filter (builds (uid b)) cs1 = []" using 1(2) ne by (simp add: builds_other)
    ultimately have "filter (builds (uid b)) (commands s (fold f (a # bs) s)) = commands s1 (f b s1)"
      using all 3(4) by simp
    moreover have "ntanks s1 (uid b) = ntanks s (uid b)" "nships s1 (uid b) = nships s (uid b)"
      using 3(1,2) 1(3,4) ne by simp_all
    moreover have "draws s \<le> draws s1" using 1(5) 3(3) by simp
    ultimately show ?thesis by blast
  qed
qed

lemma vehicle_stepD:
  assumes "vehicle_step f"
  obtains cs where "issued (f a s) = issued s @ cs" "length cs \<le> 1"
    "\<forall>c\<in>set cs. to_unit (uid a) c"
    "ntanks (f a s) = ntanks s" "nships (f a s) = nships s" "draws s \<le> draws (f a s)"
    "previous_positions (f a s) = (previous_positions s)(uid a \<mapsto> position a)"
  using assms unfolding vehicle_step_def by blast

lemma tank_control_step: "vehicle_step (tank_control random g info)"
  unfolding vehicle_step_def
  by (auto simp add: tank_control_def Let_def set_heading_def issue_def
        split: option.splits list.splits)

lemma ship_control_step: "vehicle_step (ship_control random)"
  unfolding vehicle_step_def
  by (auto simp add: ship_control_def Let_def set_heading_def issue_def split: option.splits)

lemma to_unit_unique: "to_unit u c \<Longrightarrow> to_unit v c \<Longrightarrow> u = v"
  by (cases c) auto

lemma to_unit_other: "\<forall>c\<in>set cs. to_unit v c \<Longrightarrow> u \<noteq> v \<Longrightarrow> filter (to_unit u) cs = []"
  by (rule filter_none) (auto dest: to_unit_unique)

lemma uid_distinct: "distinct (map uid (a # as)) \<Longrightarrow> b \<in> set as \<Longrightarrow> uid b \<noteq> uid a"
  by (metis distinct.simps(2) imageI list.simps(9) list.set_map)

lemma fold_vehicle:
  assumes f: "vehicle_step f"
  shows "\<exists>cs. issued (fold f as s) = issued s @ cs
      \<and> (\<forall>c\<in>set cs. \<exists>a\<in>set as. to_unit (uid a) c)
      \<and> ntanks (fold f as s) = ntanks s \<and> nships (fold f as s) = nships s
      \<and> draws s \<le> draws (fold f as s)
      \<and> (\<forall>u. u \<notin> uid ` set as \<longrightarrow> previous_positions (fold f as s) u = previous_positions s u)
      \<and> (\<forall>a\<in>set as. previous_positions (fold f as s) (uid a) \<noteq> None)
      \<and> (distinct (map uid as) \<longrightarrow>
           (\<forall>a\<in>set as. previous_positions (fold f as s) (uid a) = Some (position a)))"
proof (induction as arbitrary: s)
  case Nil
  show ?case by simp
next
  case (Cons a as)
  obtain cs1 where 1: "issued (f a s) = issued s @ cs1"
    "\<forall>c\<in>set cs1. to_unit (uid a) c"
    "ntanks (f a s) = ntanks s" "nships (f a s) = nships s" "draws s \<le> draws (f a s)"
    "previous_positions (f a s) = (previous_positions s)(uid a \<mapsto> position a)"
    using f by (rule vehicle_stepD)
  from Cons.IH [of "f a s"] obtain cs2 where 2:
    "issued (fold f as (f a s)) = issued (f a s) @ cs2"
    "\<forall>c\<in>set cs2. \<exists>a\<in>set as. to_unit (uid a) c"
    "ntanks (fold f as (f a s)) = ntanks (f a s)" "nships (fold f as (f a s)) = nships (f a s)"
    "draws (f a s) \<le> draws (fold f as (f a s))"
    "\<forall>u. u \<notin> uid ` set as \<longrightarrow> previous_positions (fold f as (f a s)) u = previous_positions (f a s) u"
    "\<forall>b\<in>set as. previous_positions (fold f as (f a s)) (uid b) \<noteq> None"
    "distinct (map uid as) \<longrightarrow>
           (\<forall>b\<in>set as. previous_positions (fold f as (f a s)) (uid b) = Some (position b))"
    by blast
  have a: "issued (fold f (a # as) s) = issued s @ (cs1 @ cs2)"
    using 1(1) 2(1) by simp
  have b: "\<forall>c\<in>set (cs1 @ cs2). \<exists>a'\<in>set (a # as). to_unit (uid a') c"
    using 1(2) 2(2) by auto
  have c: "ntanks (fold f (a # as) s) = ntanks s" "nships (fold f (a # as) s) = nships s"
    "draws s \<le> draws (fold f (a # as) s)"
    using 1(3,4,5) 2(3,4,5) by simp_all
  have d: "previous_positions (fold f (a # as) s) u = previous_positions s u"
    if "u \<notin> uid ` set (a # as)" for u
    using that 1(6) 2(6) by simp
  have e: "previous_positions (fold f (a # as) s) (uid a') \<noteq> None" if "a' \<in> set (a # as)" for a'
  proof (cases "uid a' \<in> uid ` set as")
    case True
    then show ?thesis using 2(7) by (auto simp: image_iff)
  next
    case False
    then have "a' = a" using that by auto
    then show ?thesis using False 1(6) 2(6) by simp
  qed
  have g: "previous_positions (fold f (a # as) s) (uid a') = Some (position a')"
    if dist: "distinct (map uid (a # as))" and mem: "a' \<in> set (a # as)" for a'
  proof (cases "a' = a")
    case True
    have "uid a \<notin> uid ` set as" using dist by simp
    then show ?thesis using True 1(6) 2(6) by simp
  next
    case False
    then show ?thesis using 2(8) dist mem by simp
  qed
  show ?case
    apply (rule exI [of _ "cs1 @ cs2"])
    using a b c d e g by blast
qed

lemma fold_vehicle_local:
  assumes f: "vehicle_step f" and "distinct (map uid as)" and "a \<in> set as"
  shows "\<exists>s1. previous_positions s1 (uid a) = previous_positions s (uid a)
     \<and> draws s \<le> draws s1
     \<and> filter (to_unit (uid a)) (commands s (fold f as s)) = commands s1 (f a s1)"
  using assms(2,3)
proof (induction as arbitrary: s)
  case Nil
  then show ?case by simp
next
  case (Cons a' as)
  obtain cs1 where 1: "issued (f a' s) = issued s @ cs1"
    "\<forall>c\<in>set cs1. to_unit (uid a') c" "draws s \<le> draws (f a' s)"
    "previous_positions (f a' s) = (previous_positions s)(uid a' \<mapsto> position a')"
    using f by (rule vehicle_stepD)
  from fold_vehicle [OF f, of as "f a' s"] obtain cs2 where 2:
    "issued (fold f as (f a' s)) = issued (f a' s) @ cs2"
    "\<forall>c\<in>set cs2. \<exists>b\<in>set as. to_unit (uid b) c"
    by blast
  have all: "commands s (fold f (a' # as) s) = cs1 @ cs2"
    using 1(1) 2(1) by (simp add: commandsI)
  show ?case
  proof (cases "a = a'")
    case True
    have "\<forall>c\<in>set cs2. \<not> to_unit (uid a) c"
    proof
      fix c assume "c \<in> set cs2"
      then obtain b where "b \<in> set as" "to_unit (uid b) c" using 2(2) by blast
      moreover have "uid b \<noteq> uid a" using Cons.prems(1) True \<open>b \<in> set as\<close> by (simp add: uid_distinct)
      ultimately show "\<not> to_unit (uid a) c" by (auto dest: to_unit_unique)
    qed
    then have "filter (to_unit (uid a)) cs2 = []" by (rule filter_none)
    moreover have "filter (to_unit (uid a)) cs1 = cs1" using 1(2) True by (simp add: filter_all)
    moreover have "commands s (f a s) = cs1" using 1(1) True by (simp add: commandsI)
    ultimately have "filter (to_unit (uid a)) (commands s (fold f (a' # as) s)) = commands s (f a s)"
      using all by simp
    then show ?thesis by blast
  next
    case False
    then have mem: "a \<in> set as" and dist: "distinct (map uid as)"
      using Cons.prems by auto
    have ne: "uid a \<noteq> uid a'"
      using Cons.prems(1) mem by (rule uid_distinct)
    from Cons.IH [OF dist mem, of "f a' s"] obtain s1 where 3:
      "previous_positions s1 (uid a) = previous_positions (f a' s) (uid a)"
      "draws (f a' s) \<le> draws s1"
      "filter (to_unit (uid a)) (commands (f a' s) (fold f as (f a' s))) = commands s1 (f a s1)"
      by blast
    have "commands (f a' s) (fold f as (f a' s)) = cs2" using 2(1) by (simp add: commandsI)
    moreover have "filter (to_unit (uid a)) cs1 = []" using 1(2) ne by (simp add: to_unit_other)
    ultimately have "filter (to_unit (uid a)) (commands s (fold f (a' # as) s)) = commands s1 (f a s1)"
      using all 3(3) by simp
    moreover have "previous_positions s1 (uid a) = previous_positions s (uid a)"
      using 3(1) 1(4) ne by simp
    moreover have "draws s \<le> draws s1" using 1(3) 3(2) by simp
    ultimately show ?thesis by blast
  qed
qed

lemma run_alt:
  "run random g t info s = control random g info (strategy (body_at random t) info s)"
  by (simp add: run_def body_at_def strategy_early_def strategy_midgame_def strategy_lategame_def)

lemma strategy_snd: "snd (strategy f info s) = fold f (own_bases info) s"
  by (simp add: strategy_def own_bases_def get_list_def split: option.splits)

lemma strategy_fst:
  "fst (strategy f info s) = None \<longleftrightarrow> (\<exists>r bs. map_of info CREATOR = Some r \<and> bases r = Some bs)"
  by (simp add: strategy_def split: option.splits)

lemma strategy_fst_cases: "fst (strategy f info s) = None \<or> fst (strategy f info s) = Some KeyError"
  by (simp add: strategy_def split: option.splits)

lemma fold_jets:
  "fold (jet_control target) js s =
     s\<lparr>issued := issued s @ (case target of None \<Rightarrow> []
                               | Some (tx, ty) \<Rightarrow> map (\<lambda>j. Goto (uid j) tx ty) js)\<rparr>"
  by (induction js arbitrary: s) (auto simp add: jet_control_def issue_def split: option.splits)

lemma control_cases:
  "control random g info (e, s) =
     (case e of
        Some err \<Rightarrow> (Some err, s)
      | None \<Rightarrow>
          (case map_of info CREATOR of
             None \<Rightarrow> (Some KeyError, s)
           | Some r \<Rightarrow>
               (case first_target info of
                  Inl err \<Rightarrow> (Some err, s)
                | Inr _ \<Rightarrow> (None, vehicles random g info r s))))"
  by (simp add: control_def vehicles_def get_list_def Let_def split: option.splits sum.splits)

lemma vehicles_frame:
  "\<exists>cs. issued (vehicles random g info r s) = issued s @ cs
     \<and> (\<forall>c\<in>set cs. \<forall>u. \<not> builds u c)
     \<and> ntanks (vehicles random g info r s) = ntanks s
     \<and> nships (vehicles random g info r s) = nships s
     \<and> draws s \<le> draws (vehicles random g info r s)"
proof -
  let ?s1 = "fold (tank_control random g info) (get_list (tanks r)) s"
  let ?s2 = "fold (ship_control random) (get_list (ships r)) ?s1"
  from fold_vehicle [OF tank_control_step, of random g info "get_list (tanks r)" s]
  obtain cs1 where 1: "issued ?s1 = issued s @ cs1"
    "\<forall>c\<in>set cs1. \<exists>a\<in>set (get_list (tanks r)). to_unit (uid a) c"
    "ntanks ?s1 = ntanks s" "nships ?s1 = nships s" "draws s \<le> draws ?s1"
    by blast
  from fold_vehicle [OF ship_control_step, of random "get_list (ships r)" ?s1]
  obtain cs2 where 2: "issued ?s2 = issued ?s1 @ cs2"
    "\<forall>c\<in>set cs2. \<exists>a\<in>set (get_list (ships r)). to_unit (uid a) c"
    "ntanks ?s2 = ntanks ?s1" "nships ?s2 = nships ?s1" "draws ?s1 \<le> draws ?s2"
    by blast
  let ?cs3 = "case power_target info of None \<Rightarrow> []
              | Some (tx, ty) \<Rightarrow> map (\<lambda>j. Goto (uid j) tx ty) (get_list (jets r))"
  have 3: "\<forall>c\<in>set ?cs3. \<forall>u. \<not> builds u c"
    by (auto split: option.splits)
  have "issued (vehicles random g info r s) = issued s @ (cs1 @ cs2 @ ?cs3)"
    using 1(1) 2(1) by (simp add: vehicles_def fold_jets)
  moreover have "\<forall>c\<in>set (cs1 @ cs2 @ ?cs3). \<forall>u. \<not> builds u c"
    using 1(2) 2(2) 3 by (auto dest: to_unit_not_builds)
  moreover have "ntanks (vehicles random g info r s) = ntanks s"
    "nships (vehicles random g info r s) = nships s"
    "draws s \<le> draws (vehicles random g info r s)"
    using 1(3,4,5) 2(3,4,5) by (simp_all add: vehicles_def fold_jets)
  ultimately show ?thesis by blast
qed

lemma control_frame:
  "\<exists>cs. issued (snd (control random g info (e, s))) = issued s @ cs
     \<and> (\<forall>c\<in>set cs. \<forall>u. \<not> builds u c)
     \<and> ntanks (snd (control random g info (e, s))) = ntanks s
     \<and> nships (snd (control random g info (e, s))) = nships s
     \<and> draws s \<le> draws (snd (control random g info (e, s)))"
  using vehicles_frame [of random g info _ s]
  by (auto simp add: control_cases split: option.splits sum.splits)

text \<open>A call is its strategy followed by commands that build nothing.\<close>

lemma run_frame:
  "\<exists>cs. issued (snd (run random g t info s))
           = issued (fold (body_at random t) (own_bases info) s) @ cs
     \<and> (\<forall>c\<in>set cs. \<forall>u. \<not> builds u c)
     \<and> ntanks (snd (run random g t info s)) = ntanks (fold (body_at random t) (own_bases info) s)
     \<and> nships (snd (run random g t info s)) = nships (fold (body_at random t) (own_bases info) s)"
proof -
  obtain e s1 where st: "strategy (body_at random t) info s = (e, s1)"
    by (cases "strategy (body_at random t) info s")
  then have "s1 = fold (body_at random t) (own_bases info) s"
    using strategy_snd [of "body_at random t" info s] by simp
  then show ?thesis
    using control_frame [of random g info e s1] st by (simp add: run_alt) blast
qed

lemma run_builds:
  "filter (builds u) (commands s (snd (run random g t info s)))
     = filter (builds u) (commands s (fold (body_at random t) (own_bases info) s))"
proof -
  let ?s1 = "fold (body_at random t) (own_bases info) s"
  from fold_accounting [OF body_at_step, of random t "own_bases info" s]
  obtain cs1 where 1: "issued ?s1 = issued s @ cs1" by blast
  from run_frame [of random g t info s]
  obtain cs2 where 2: "issued (snd (run random g t info s)) = issued ?s1 @ cs2"
    "\<forall>c\<in>set cs2. \<forall>u. \<not> builds u c" by blast
  have "filter (builds u) cs2 = []" using 2(2) by (simp add: filter_none)
  moreover have "commands s (snd (run random g t info s)) = cs1 @ cs2"
    using 1 2(1) by (simp add: commandsI)
  moreover have "commands s ?s1 = cs1" using 1 by (simp add: commandsI)
  ultimately show ?thesis by simp
qed

section \<open>Phase selection\<close>

text \<open>
  Claim C7. The phase is a function of the elapsed time alone: below 180 the call runs
  \<^verbatim>\<open>strategy_early\<close>, from 180 and below 360 \<^verbatim>\<open>strategy_midgame\<close>, from 360 on
  \<^verbatim>\<open>strategy_lategame\<close>, and then the rest of \<^verbatim>\<open>run\<close>; so 179.9 is early, 180 and
  359.9 are mid, 360 is late.
\<close>

theorem phase_selection:
  "(t < 180 \<longrightarrow> run random g t info s = control random g info (strategy_early random info s))
   \<and> (180 \<le> t \<and> t < 360 \<longrightarrow>
        run random g t info s = control random g info (strategy_midgame random info s))
   \<and> (360 \<le> t \<longrightarrow> run random g t info s = control random g info (strategy_lategame random info s))
   \<and> run random g 179.9 info s = control random g info (strategy_early random info s)
   \<and> run random g 180 info s = control random g info (strategy_midgame random info s)
   \<and> run random g 359.9 info s = control random g info (strategy_midgame random info s)
   \<and> run random g 360 info s = control random g info (strategy_lategame random info s)"
  by (simp add: run_def)

theorem phase_selection_witness:
  "(100::real) < 180 \<and> issued (snd (run ramp never 100 (lone mined) init)) = [Build_tank 1 0]
   \<and> (180::real) \<le> 200 \<and> (200::real) < 360
   \<and> issued (snd (run ramp never 200 (lone home) init)) = [Build_mine 1]
   \<and> (360::real) \<le> 400 \<and> issued (snd (run ramp never 400 (lone home) init)) = [Build_jet 1 0]"
  using phase_selection [of 100 ramp never "lone mined" init]
    phase_selection [of 200 ramp never "lone home" init]
    phase_selection [of 400 ramp never "lone home" init]
  by (simp add: eval_defs lone_def)

section \<open>The early build order\<close>

text \<open>
  Claim C3, as stated, fails: the chain of \<^verbatim>\<open>elif\<close> branches hangs on the test
  \<^verbatim>\<open>base.mines < 3\<close>, and the test of the crystal is nested inside it. A base with fewer
  than three mines that cannot afford a mine builds nothing, though it could afford a tank
  and has built none.
\<close>

theorem early_no_fallthrough_counterexample:
  "mines saving < 3 \<and> \<not> cost saving ''mine'' < crystal saving
   \<and> cost saving ''tank'' < crystal saving \<and> counter (ntanks init) (uid saving) < 2
   \<and> fst (run ramp never 0 (lone saving) init) = None
   \<and> commands init (snd (run ramp never 0 (lone saving) init)) = []"
  by (simp add: run_def eval_defs lone_def)

text \<open>
  Claim C3, amended. In the early phase the constructions issued on a base of the agent
  (the uids of its bases being distinct) are those of \<open>early_build\<close>: a mine when the base
  has fewer than three mines and can afford one, nothing when it has fewer than three and
  cannot; otherwise the first of tank (fewer than 2 built here), ship (fewer than 6), tank
  (fewer than 5, and 6 ships or more), jet that it can afford, and nothing when none. The
  counters are those at the start of the call, the heading is 360 times a draw not made
  before.
\<close>

theorem early_build_order:
  assumes "t < 180" and "map_of info CREATOR = Some r" and "bases r = Some bs"
    and "distinct (map uid bs)" and "b \<in> set bs"
  shows "\<exists>k\<ge>draws s.
           filter (builds (uid b)) (commands s (snd (run random g t info s)))
             = early_build b (counter (ntanks s) (uid b)) (counter (nships s) (uid b))
                 (360 * random k)"
proof -
  have own: "own_bases info = bs"
    using assms(2,3) by (simp add: own_bases_def get_list_def)
  have body: "body_at random t = early_base random"
    using assms(1) by (simp add: body_at_def)
  have "\<exists>s1. ntanks s1 (uid b) = ntanks s (uid b) \<and> nships s1 (uid b) = nships s (uid b)
     \<and> draws s \<le> draws s1
     \<and> filter (builds (uid b)) (commands s (fold (early_base random) bs s))
           = commands s1 (early_base random b s1)"
    by (rule fold_local [OF early_base_step assms(4,5)])
  then obtain s1 where 1: "ntanks s1 (uid b) = ntanks s (uid b)" "nships s1 (uid b) = nships s (uid b)"
    "draws s \<le> draws s1"
    "filter (builds (uid b)) (commands s (fold (early_base random) bs s))
       = commands s1 (early_base random b s1)"
    by blast
  have "commands s1 (early_base random b s1)
          = early_build b (counter (ntanks s1) (uid b)) (counter (nships s1) (uid b))
              (360 * random (draws s1))"
    by (simp add: commandsI early_base_commands)
  moreover have "counter (ntanks s1) (uid b) = counter (ntanks s) (uid b)"
    "counter (nships s1) (uid b) = counter (nships s) (uid b)"
    using 1(1,2) by (simp_all add: counter_def)
  ultimately have "filter (builds (uid b)) (commands s (snd (run random g t info s)))
      = early_build b (counter (ntanks s) (uid b)) (counter (nships s) (uid b))
          (360 * random (draws s1))"
    using 1(4) by (simp add: run_builds own body)
  then show ?thesis using 1(3) by blast
qed

theorem early_build_order_witness:
  "(0::real) < 180 \<and> map_of (lone mined) CREATOR = Some (no_team\<lparr>bases := Some [mined]\<rparr>)
   \<and> bases (no_team\<lparr>bases := Some [mined]\<rparr>) = Some [mined]
   \<and> distinct (map uid [mined]) \<and> mined \<in> set [mined]
   \<and> (\<exists>k\<ge>draws init.
         filter (builds (uid mined)) (commands init (snd (run ramp never 0 (lone mined) init)))
           = early_build mined (counter (ntanks init) (uid mined))
               (counter (nships init) (uid mined)) (360 * ramp k))
   \<and> early_build mined 0 0 0 = [Build_tank 1 0]"
proof -
  have 1: "(0::real) < 180" by simp
  have 2: "map_of (lone mined) CREATOR = Some (no_team\<lparr>bases := Some [mined]\<rparr>)"
    by (simp add: lone_def CREATOR_def)
  have 3: "bases (no_team\<lparr>bases := Some [mined]\<rparr>) = Some [mined]" by simp
  have 4: "distinct (map uid [mined])" by simp
  have 5: "mined \<in> set [mined]" by simp
  have 6: "early_build mined 0 0 0 = [Build_tank 1 0]"
    by (simp add: early_build_def mined_def flat_def)
  show ?thesis
    using 1 2 3 4 5 6 early_build_order [OF 1 2 3 4 5, of init ramp never] by simp
qed

section \<open>Mines first\<close>

text \<open>
  Claim C2, as stated, fails in the late phase: \<^verbatim>\<open>strategy_lategame\<close> builds jets and
  nothing else. A base without mines that can afford a mine gets a jet.
\<close>

theorem late_mine_counterexample:
  "mines home = 0 \<and> cost home ''mine'' < crystal home
   \<and> commands init (snd (run ramp never 400 (lone home) init)) = [Build_jet 1 0]"
  by (simp add: run_def eval_defs lone_def)

text \<open>
  Claim C2, amended to the early and mid phases. Before 360 seconds, a base of the agent
  (the uids of its bases being distinct) that has no mine and more crystal than a mine
  costs is issued \<^verbatim>\<open>build_mine\<close>, and no other construction, in the call.
\<close>

theorem mine_first:
  assumes "t < 360" and "map_of info CREATOR = Some r" and "bases r = Some bs"
    and "distinct (map uid bs)" and "b \<in> set bs"
    and "mines b = 0" and "cost b ''mine'' < crystal b"
  shows "filter (builds (uid b)) (commands s (snd (run random g t info s))) = [Build_mine (uid b)]"
proof -
  have own: "own_bases info = bs"
    using assms(2,3) by (simp add: own_bases_def get_list_def)
  have "\<exists>s1. ntanks s1 (uid b) = ntanks s (uid b) \<and> nships s1 (uid b) = nships s (uid b)
     \<and> draws s \<le> draws s1
     \<and> filter (builds (uid b)) (commands s (fold (body_at random t) bs s))
           = commands s1 (body_at random t b s1)"
    by (rule fold_local [OF body_at_step assms(4,5)])
  then obtain s1 where 1:
    "filter (builds (uid b)) (commands s (fold (body_at random t) bs s))
       = commands s1 (body_at random t b s1)"
    by blast
  have "issued (body_at random t b s1) = issued s1 @ [Build_mine (uid b)]"
    using assms(1,6,7)
    by (simp add: body_at_def early_base_def midgame_base_def Let_def issue_def register_other)
  then have "commands s1 (body_at random t b s1) = [Build_mine (uid b)]"
    by (rule commandsI)
  then show ?thesis using 1 by (simp add: run_builds own)
qed

theorem mine_first_witness:
  "(200::real) < 360 \<and> map_of (lone home) CREATOR = Some (no_team\<lparr>bases := Some [home]\<rparr>)
   \<and> bases (no_team\<lparr>bases := Some [home]\<rparr>) = Some [home]
   \<and> distinct (map uid [home]) \<and> home \<in> set [home]
   \<and> mines home = 0 \<and> cost home ''mine'' < crystal home
   \<and> filter (builds (uid home)) (commands init (snd (run ramp never 200 (lone home) init)))
        = [Build_mine (uid home)]"
proof -
  have 1: "(200::real) < 360" by simp
  have 2: "map_of (lone home) CREATOR = Some (no_team\<lparr>bases := Some [home]\<rparr>)"
    by (simp add: lone_def CREATOR_def)
  have 3: "bases (no_team\<lparr>bases := Some [home]\<rparr>) = Some [home]" by simp
  have 4: "distinct (map uid [home])" by simp
  have 5: "home \<in> set [home]" by simp
  have 6: "mines home = 0" by (simp add: home_def)
  have 7: "cost home ''mine'' < crystal home" by (simp add: home_def flat_def)
  show ?thesis
    using 1 2 3 4 5 6 7 mine_first [OF 1 2 3 4 5 6 7, of init ramp never] by simp
qed

text \<open>
  The end-to-end scenario of the specification: at time 0 the base with 100 crystal and no
  mine, a mine costing 50, is issued \<^verbatim>\<open>build_mine\<close> and the call issues nothing else.
\<close>

lemma end_to_end_scenario:
  "run ramp never 0 scenario init = (None, init\<lparr>ntanks := [1 \<mapsto> 0], nships := [1 \<mapsto> 0],
                                                 issued := [Build_mine 1]\<rparr>)"
  by (simp add: run_def eval_defs)

section \<open>The counters\<close>

lemma filter_length_mono:
  "(\<And>c. P c \<Longrightarrow> Q c) \<Longrightarrow> length (filter P cs) \<le> length (filter Q cs)"
  by (induction cs) auto

lemma run_accounting:
  fixes s' :: state
  assumes "s' = snd (run random g t info s)"
  shows "ntanks s' u =
           (if u \<in> uid ` set (own_bases info) \<or> ntanks s u \<noteq> None
            then Some (counter (ntanks s) u + int (length (filter (builds_tank u) (commands s s'))))
            else None)"
    and "nships s' u =
           (if u \<in> uid ` set (own_bases info) \<or> nships s u \<noteq> None
            then Some (counter (nships s) u + int (length (filter (builds_ship u) (commands s s'))))
            else None)"
    and "distinct (map uid (own_bases info)) \<Longrightarrow> length (filter (builds u) (commands s s')) \<le> 1"
proof -
  let ?s1 = "fold (body_at random t) (own_bases info) s"
  from fold_accounting [OF body_at_step, of random t "own_bases info" s]
  obtain cs1 where 1: "issued ?s1 = issued s @ cs1"
    "\<forall>u. ntanks ?s1 u =
              (if u \<in> uid ` set (own_bases info) \<or> ntanks s u \<noteq> None
               then Some (counter (ntanks s) u + int (length (filter (builds_tank u) cs1)))
               else None)"
    "\<forall>u. nships ?s1 u =
              (if u \<in> uid ` set (own_bases info) \<or> nships s u \<noteq> None
               then Some (counter (nships s) u + int (length (filter (builds_ship u) cs1)))
               else None)"
    "distinct (map uid (own_bases info)) \<longrightarrow> (\<forall>u. length (filter (builds u) cs1) \<le> 1)"
    by blast
  from run_frame [of random g t info s]
  obtain cs2 where 2: "issued s' = issued ?s1 @ cs2"
    "\<forall>c\<in>set cs2. \<forall>u. \<not> builds u c"
    "ntanks s' = ntanks ?s1" "nships s' = nships ?s1"
    using assms by blast
  have cmds: "commands s s' = cs1 @ cs2"
    using 1(1) 2(1) by (simp add: commandsI)
  have none: "filter (builds u) cs2 = []" "filter (builds_tank u) cs2 = []"
    "filter (builds_ship u) cs2 = []"
    using 2(2) by (auto intro!: filter_none dest: builds_tank_builds builds_ship_builds)
  show "ntanks s' u =
           (if u \<in> uid ` set (own_bases info) \<or> ntanks s u \<noteq> None
            then Some (counter (ntanks s) u + int (length (filter (builds_tank u) (commands s s'))))
            else None)"
    using 1(2) 2(3) none(2) by (simp add: cmds)
  show "nships s' u =
           (if u \<in> uid ` set (own_bases info) \<or> nships s u \<noteq> None
            then Some (counter (nships s) u + int (length (filter (builds_ship u) (commands s s'))))
            else None)"
    using 1(3) 2(4) none(3) by (simp add: cmds)
  show "length (filter (builds u) (commands s s')) \<le> 1"
    if "distinct (map uid (own_bases info))"
    using 1(4) that none(1) by (simp add: cmds)
qed

lemma run_mono:
  "ntanks s u = Some n \<Longrightarrow> \<exists>m\<ge>n. ntanks (snd (run random g t info s)) u = Some m"
  "nships s u = Some n \<Longrightarrow> \<exists>m\<ge>n. nships (snd (run random g t info s)) u = Some m"
  using run_accounting(1) [OF refl, of random g t info s u]
    run_accounting(2) [OF refl, of random g t info s u]
  by (simp_all add: counter_def)

lemma run_seq_Cons:
  "run_seq random g ((t, info) # ticks) s = run_seq random g ticks (snd (run random g t info s))"
  by (simp add: run_seq_def)

lemma run_seq_mono_tanks:
  "ntanks s u = Some n \<Longrightarrow> \<exists>m\<ge>n. ntanks (run_seq random g ticks s) u = Some m"
proof (induction ticks arbitrary: s n)
  case Nil
  then show ?case by (simp add: run_seq_def)
next
  case (Cons a ticks)
  obtain t info where a: "a = (t, info)" by (cases a)
  from run_mono(1) [OF Cons.prems, of random g t info]
  obtain m where m: "n \<le> m" "ntanks (snd (run random g t info s)) u = Some m" by blast
  from Cons.IH [OF m(2)] obtain m' where m': "m \<le> m'"
    "ntanks (run_seq random g ticks (snd (run random g t info s))) u = Some m'" by blast
  have "n \<le> m'" using m(1) m'(1) by simp
  then show ?case using m'(2) by (simp add: a run_seq_Cons)
qed

lemma run_seq_mono_ships:
  "nships s u = Some n \<Longrightarrow> \<exists>m\<ge>n. nships (run_seq random g ticks s) u = Some m"
proof (induction ticks arbitrary: s n)
  case Nil
  then show ?case by (simp add: run_seq_def)
next
  case (Cons a ticks)
  obtain t info where a: "a = (t, info)" by (cases a)
  from run_mono(2) [OF Cons.prems, of random g t info]
  obtain m where m: "n \<le> m" "nships (snd (run random g t info s)) u = Some m" by blast
  from Cons.IH [OF m(2)] obtain m' where m': "m \<le> m'"
    "nships (run_seq random g ticks (snd (run random g t info s))) u = Some m'" by blast
  have "n \<le> m'" using m(1) m'(1) by simp
  then show ?case using m'(2) by (simp add: a run_seq_Cons)
qed

text \<open>
  Claim C8. Over any sequence of calls on one agent a counter that exists never decreases
  and never disappears, whether or not a call raises. In one call, a counter exists
  afterwards exactly when it existed before or its uid is that of one of the agent's
  bases in the snapshot, and its value is then the old one (0 for a uid seen for the first
  time) plus the number of tank (ship) constructions issued on that base in the call; with
  distinct base uids that number is 0 or 1.
\<close>

theorem counters_monotone:
  "(ntanks s u = Some n \<longrightarrow> (\<exists>m\<ge>n. ntanks (run_seq random g ticks s) u = Some m))
   \<and> (nships s u = Some n \<longrightarrow> (\<exists>m\<ge>n. nships (run_seq random g ticks s) u = Some m))
   \<and> ntanks (snd (run random g t info s)) u =
        (if u \<in> uid ` set (own_bases info) \<or> ntanks s u \<noteq> None
         then Some (counter (ntanks s) u
                + int (length (filter (builds_tank u) (commands s (snd (run random g t info s))))))
         else None)
   \<and> nships (snd (run random g t info s)) u =
        (if u \<in> uid ` set (own_bases info) \<or> nships s u \<noteq> None
         then Some (counter (nships s) u
                + int (length (filter (builds_ship u) (commands s (snd (run random g t info s))))))
         else None)
   \<and> (distinct (map uid (own_bases info)) \<longrightarrow>
        length (filter (builds_tank u) (commands s (snd (run random g t info s)))) \<le> 1
        \<and> length (filter (builds_ship u) (commands s (snd (run random g t info s)))) \<le> 1)"
proof -
  let ?s' = "snd (run random g t info s)"
  have le: "length (filter (builds_tank u) (commands s ?s')) \<le> length (filter (builds u) (commands s ?s'))"
    "length (filter (builds_ship u) (commands s ?s')) \<le> length (filter (builds u) (commands s ?s'))"
    by (rule filter_length_mono, erule builds_tank_builds)
       (rule filter_length_mono, erule builds_ship_builds)
  have "length (filter (builds_tank u) (commands s ?s')) \<le> 1
        \<and> length (filter (builds_ship u) (commands s ?s')) \<le> 1"
    if "distinct (map uid (own_bases info))"
  proof -
    have "length (filter (builds u) (commands s ?s')) \<le> 1"
      by (rule run_accounting(3) [OF refl that])
    then show ?thesis using le by linarith
  qed
  then show ?thesis
    using run_seq_mono_tanks [of s u n random g ticks] run_seq_mono_ships [of s u n random g ticks]
      run_accounting(1,2) [OF refl, of random g t info s u]
    by blast
qed

theorem counters_monotone_witness:
  "ntanks veteran 1 = Some 1 \<and> nships veteran 1 = Some 1
   \<and> distinct (map uid (own_bases (lone mined)))
   \<and> (\<exists>m\<ge>1. ntanks (run_seq ramp never [(0, lone mined), (200, lone mined)] veteran) 1 = Some m)
   \<and> (\<exists>m\<ge>1. nships (run_seq ramp never [(0, lone mined), (200, lone mined)] veteran) 1 = Some m)
   \<and> length (filter (builds_tank 1) (commands veteran (snd (run ramp never 0 (lone mined) veteran)))) \<le> 1
   \<and> length (filter (builds_ship 1) (commands veteran (snd (run ramp never 0 (lone mined) veteran)))) \<le> 1"
proof -
  have 1: "ntanks veteran 1 = Some 1" "nships veteran 1 = Some 1"
    by (simp_all add: veteran_def init_def)
  have 2: "distinct (map uid (own_bases (lone mined)))"
    by (simp add: own_bases_def lone_def CREATOR_def get_list_def no_team_def)
  show ?thesis
    using 1 2
      counters_monotone [where s = veteran and u = 1 and n = 1 and random = ramp and g = never
        and ticks = "[(0, lone mined), (200, lone mined)]" and t = 0 and info = "lone mined"]
    by simp
qed

section \<open>Tanks\<close>

lemma heading_range:
  fixes random :: "nat \<Rightarrow> real"
  assumes "\<forall>n. 0 \<le> random n \<and> random n < 1"
  shows "0 \<le> random k * 360 \<and> random k * 360 < 360"
  using assms [rule_format, of k] by simp


lemma fold_vehicle_recorded:
  assumes "vehicle_step f" and "distinct (map uid as)" and "a \<in> set as"
  shows "previous_positions (fold f as s) (uid a) = Some (position a)"
proof -
  from fold_vehicle [OF assms(1), of as s]
  have "distinct (map uid as) \<longrightarrow>
           (\<forall>a\<in>set as. previous_positions (fold f as s) (uid a) = Some (position a))"
    by (elim exE conjE)
  then show ?thesis using assms(2,3) by simp
qed




section \<open>Ships\<close>

lemma ship_far:
  assumes "previous_positions s (uid ship) = Some (position ship)"
    and "get_distance ship (x (owner ship)) (y (owner ship)) > 20"
  shows "commands s (ship_control random ship s) = [Convert_to_base (uid ship)]"
  using assms by (simp add: commands_def ship_control_def Let_def issue_def)

lemma ship_near:
  assumes "previous_positions s (uid ship) = Some (position ship)"
    and "\<not> get_distance ship (x (owner ship)) (y (owner ship)) > 20"
  shows "commands s (ship_control random ship s) = [Set_heading (uid ship) (random (draws s) * 360)]"
  using assms by (simp add: commands_def ship_control_def Let_def set_heading_def issue_def)

text \<open>
  The loop over the ships (lines 94 to 107), started in any state, the ships of the list
  having distinct uids.
\<close>

lemma ship_loop:
  assumes "\<forall>n. 0 \<le> random n \<and> random n < 1" and "distinct (map uid ss)" and "ship \<in> set ss"
  shows "previous_positions (fold (ship_control random) ss s) (uid ship) = Some (position ship)
    \<and> (previous_positions s (uid ship) = Some (position ship) \<longrightarrow>
          (get_distance ship (x (owner ship)) (y (owner ship)) > 20 \<longrightarrow>
             filter (to_unit (uid ship)) (commands s (fold (ship_control random) ss s))
               = [Convert_to_base (uid ship)])
        \<and> (\<not> get_distance ship (x (owner ship)) (y (owner ship)) > 20 \<longrightarrow>
             (\<exists>h. 0 \<le> h \<and> h < 360
                \<and> filter (to_unit (uid ship)) (commands s (fold (ship_control random) ss s))
                    = [Set_heading (uid ship) h])))"
proof -
  let ?f = "ship_control random"
  have rec: "previous_positions (fold ?f ss s) (uid ship) = Some (position ship)"
    by (rule fold_vehicle_recorded [OF ship_control_step assms(2,3)])
  have "\<exists>s1. previous_positions s1 (uid ship) = previous_positions s (uid ship)
     \<and> draws s \<le> draws s1
     \<and> filter (to_unit (uid ship)) (commands s (fold ?f ss s)) = commands s1 (?f ship s1)"
    by (rule fold_vehicle_local [OF ship_control_step assms(2,3)])
  then obtain s1 where 1: "previous_positions s1 (uid ship) = previous_positions s (uid ship)"
    "filter (to_unit (uid ship)) (commands s (fold ?f ss s)) = commands s1 (?f ship s1)"
    by blast
  have a: "filter (to_unit (uid ship)) (commands s (fold ?f ss s)) = [Convert_to_base (uid ship)]"
    if "previous_positions s (uid ship) = Some (position ship)"
      "get_distance ship (x (owner ship)) (y (owner ship)) > 20"
    using that 1 by (simp add: ship_far)
  have b: "\<exists>h. 0 \<le> h \<and> h < 360
             \<and> filter (to_unit (uid ship)) (commands s (fold ?f ss s)) = [Set_heading (uid ship) h]"
    if "previous_positions s (uid ship) = Some (position ship)"
      "\<not> get_distance ship (x (owner ship)) (y (owner ship)) > 20"
  proof -
    have "commands s1 (?f ship s1) = [Set_heading (uid ship) (random (draws s1) * 360)]"
      using that 1(1) by (simp add: ship_near)
    then show ?thesis using 1(2) heading_range [OF assms(1), of "draws s1"] by auto
  qed
  show ?thesis
  proof (intro conjI impI)
    show "previous_positions (fold ?f ss s) (uid ship) = Some (position ship)" by (rule rec)
  next
    assume "previous_positions s (uid ship) = Some (position ship)"
      "get_distance ship (x (owner ship)) (y (owner ship)) > 20"
    then show "filter (to_unit (uid ship)) (commands s (fold ?f ss s)) = [Convert_to_base (uid ship)]"
      by (rule a)
  next
    assume "previous_positions s (uid ship) = Some (position ship)"
      "\<not> get_distance ship (x (owner ship)) (y (owner ship)) > 20"
    then show "\<exists>h. 0 \<le> h \<and> h < 360
             \<and> filter (to_unit (uid ship)) (commands s (fold ?f ss s)) = [Set_heading (uid ship) h]"
      by (rule b)
  qed
qed

section \<open>Missing keys and exceptions\<close>

lemma insort_key_map:
  "insort_key f (h a) (map h xs) = map h (insort_key (\<lambda>a. f (h a)) a xs)"
  by (induction xs) auto

lemma sort_key_map: "sort_key f (map h xs) = map h (sort_key (\<lambda>a. f (h a)) xs)"
  by (induction xs) (auto simp add: insort_key_map)

lemma fill_team_bases: "bases (fill_team r) = bases r"
  by (simp add: fill_team_def)

lemma fill_team_lists:
  "get_list (tanks (fill_team r)) = get_list (tanks r)"
  "get_list (ships (fill_team r)) = get_list (ships r)"
  "get_list (jets (fill_team r)) = get_list (jets r)"
  by (simp_all add: fill_team_def get_list_def)

lemma fill_team_power: "determine_power (fill_team r) = determine_power r"
  by (simp add: determine_power_def fill_team_bases)

lemma map_of_fill: "map_of (fill info) k = map_option fill_team (map_of info k)"
  by (induction info) (auto simp add: fill_def)

lemma strategy_fill: "strategy f (fill info) s = strategy f info s"
  by (simp add: strategy_def map_of_fill fill_team_bases split: option.splits)

lemma first_bases_fill: "first_bases (fill info) target = first_bases info target"
  by (induction info target rule: first_bases.induct)
     (auto simp add: fill_def fill_team_bases split: option.splits list.splits)

lemma first_target_fill: "first_target (fill info) = first_target info"
  by (simp add: first_target_def first_bases_fill) (simp add: fill_def)

lemma enemy_bases_fill: "enemy_bases (fill info) = enemy_bases info"
  by (induction info) (auto simp add: enemy_bases_def fill_def fill_team_bases)

lemma tank_control_fill: "tank_control random g (fill info) = tank_control random g info"
  by (rule ext, rule ext) (simp add: tank_control_def enemy_bases_fill)

lemma power_target_alt:
  "power_target info =
     (if length info > 1 then
        (case sort_key determine_power (enemy_teams info) of
           [] \<Rightarrow> None
         | _ # _ \<Rightarrow> Some (base_target (last (sort_key determine_power (enemy_teams info)))))
      else None)"
  by (simp add: power_target_def enemy_teams_def base_target_def Let_def
        split: list.splits option.splits)

lemma enemy_teams_fill: "enemy_teams (fill info) = map fill_team (enemy_teams info)"
  by (induction info) (auto simp add: enemy_teams_def fill_def)

lemma base_target_fill: "base_target (fill_team r) = base_target r"
  by (simp add: base_target_def fill_team_bases)

lemma power_target_fill: "power_target (fill info) = power_target info"
proof -
  let ?sorted = "sort_key determine_power (enemy_teams info)"
  have len: "length (fill info) = length info" by (simp add: fill_def)
  have sorted: "sort_key determine_power (enemy_teams (fill info)) = map fill_team ?sorted"
    by (simp add: enemy_teams_fill sort_key_map fill_team_power)
  show ?thesis
  proof (cases ?sorted)
    case Nil
    then show ?thesis by (simp add: power_target_alt len sorted)
  next
    case (Cons a list)
    then have "last (map fill_team ?sorted) = fill_team (last ?sorted)"
      by (simp add: last_map)
    then show ?thesis using Cons
      by (simp add: power_target_alt len sorted base_target_fill)
  qed
qed

lemma vehicles_fill:
  "vehicles random g (fill info) (fill_team r) s = vehicles random g info r s"
  by (simp add: vehicles_def fill_team_lists tank_control_fill power_target_fill)

lemma run_fill: "run random g t (fill info) s = run random g t info s"
  by (cases "strategy (body_at random t) info s")
     (simp add: run_alt strategy_fill control_cases map_of_fill first_target_fill vehicles_fill
        split: option.splits sum.splits)

lemma first_bases_ok:
  "\<forall>(name, r)\<in>set info. name \<noteq> CREATOR \<longrightarrow> bases r \<noteq> Some []
     \<Longrightarrow> \<exists>v. first_bases info target = Inr v"
  by (induction info target rule: first_bases.induct) (auto split: option.splits list.splits)

text \<open>
  Claim C1, as stated, fails: the three strategies read \<^verbatim>\<open>myinfo["bases"]\<close> with a plain
  subscript, so a call in which the agent's own record lacks \<^verbatim>\<open>"bases"\<close> raises
  \<^verbatim>\<open>KeyError\<close>.
\<close>

theorem own_bases_missing_counterexample:
  "map_of bare CREATOR = Some no_team \<and> bases no_team = None
   \<and> fst (run ramp never 0 bare init) = Some KeyError"
  by (simp add: run_def eval_defs bare_def)

text \<open>
  Claim C1, amended. When the agent's own record has the key \<^verbatim>\<open>"bases"\<close> and no enemy
  record maps \<^verbatim>\<open>"bases"\<close> to an empty list, the call returns without raising. In every
  call the keys \<^verbatim>\<open>"tanks"\<close>, \<^verbatim>\<open>"ships"\<close> and \<^verbatim>\<open>"jets"\<close> are optional on every record: a
  missing one and an empty list give the same outcome, state and commands.
\<close>

theorem run_completes:
  assumes "map_of info CREATOR = Some r" and "bases r = Some bs"
    and "\<forall>(name, r')\<in>set info. name \<noteq> CREATOR \<longrightarrow> bases r' \<noteq> Some []"
  shows "fst (run random g t info s) = None
    \<and> run random g t (fill info) s = run random g t info s"
proof -
  have "fst (strategy (body_at random t) info s) = None"
    using assms(1,2) by (simp add: strategy_fst)
  then obtain s1 where 1: "strategy (body_at random t) info s = (None, s1)"
    by (cases "strategy (body_at random t) info s") auto
  obtain v where 2: "first_bases info None = Inr v"
    using first_bases_ok [OF assms(3)] by blast
  have "fst (run random g t info s) = None"
    using 1 2 assms(1) by (simp add: run_alt control_cases first_target_def)
  then show ?thesis by (simp add: run_fill)
qed

theorem run_completes_witness:
  "map_of two_enemies CREATOR = Some (no_team\<lparr>bases := Some [home], tanks := Some [tank7]\<rparr>)
   \<and> bases (no_team\<lparr>bases := Some [home], tanks := Some [tank7]\<rparr>) = Some [home]
   \<and> bases (no_team\<lparr>bases := Some [far_base]\<rparr>) \<noteq> Some []
   \<and> bases (no_team\<lparr>bases := Some [enemy_home]\<rparr>) \<noteq> Some []
   \<and> fst (run ramp never 0 two_enemies init) = None
   \<and> run ramp never 0 (fill two_enemies) init = run ramp never 0 two_enemies init"
proof -
  have 1: "map_of two_enemies CREATOR = Some (no_team\<lparr>bases := Some [home], tanks := Some [tank7]\<rparr>)"
    by (simp add: two_enemies_def CREATOR_def)
  have 2: "bases (no_team\<lparr>bases := Some [home], tanks := Some [tank7]\<rparr>) = Some [home]"
    by simp
  have 3: "\<forall>(name, r')\<in>set two_enemies. name \<noteq> CREATOR \<longrightarrow> bases r' \<noteq> Some []"
    by (simp add: two_enemies_def CREATOR_def no_team_def)
  show ?thesis
    using 1 2 3 run_completes [OF 1 2 3, of ramp never 0 init] by simp
qed

section \<open>The recorded positions\<close>

lemma run_raises:
  assumes "fst (run random g t info s) \<noteq> None"
  shows "snd (run random g t info s) = fold (body_at random t) (own_bases info) s"
proof -
  obtain e s1 where st: "strategy (body_at random t) info s = (e, s1)"
    by (cases "strategy (body_at random t) info s")
  then have "s1 = fold (body_at random t) (own_bases info) s"
    using strategy_snd [of "body_at random t" info s] by simp
  then show ?thesis using assms st
    by (auto simp add: run_alt control_cases split: option.splits sum.splits)
qed

lemma run_returns:
  assumes "fst (run random g t info s) = None" and "map_of info CREATOR = Some r"
  shows "snd (run random g t info s)
           = vehicles random g info r (fold (body_at random t) (own_bases info) s)"
proof -
  obtain e s1 where st: "strategy (body_at random t) info s = (e, s1)"
    by (cases "strategy (body_at random t) info s")
  then have "s1 = fold (body_at random t) (own_bases info) s"
    using strategy_snd [of "body_at random t" info s] by simp
  then show ?thesis using assms st
    by (auto simp add: run_alt control_cases split: option.splits sum.splits)
qed

lemma strategy_positions:
  "previous_positions (fold (body_at random t) bs s) = previous_positions s"
  using fold_accounting [OF body_at_step, of random t bs s] by blast

lemma fold_vehicle_others:
  assumes "vehicle_step f" and "u \<notin> uid ` set as"
  shows "previous_positions (fold f as s) u = previous_positions s u"
proof -
  from fold_vehicle [OF assms(1), of as s]
  have "\<forall>u. u \<notin> uid ` set as \<longrightarrow> previous_positions (fold f as s) u = previous_positions s u"
    by (elim exE conjE)
  then show ?thesis using assms(2) by simp
qed

lemma fold_vehicle_present:
  assumes "vehicle_step f" and "a \<in> set as"
  shows "previous_positions (fold f as s) (uid a) \<noteq> None"
proof -
  from fold_vehicle [OF assms(1), of as s]
  have "\<forall>a\<in>set as. previous_positions (fold f as s) (uid a) \<noteq> None"
    by (elim exE conjE)
  then show ?thesis using assms(2) by simp
qed

lemma vehicles_positions:
  "previous_positions (vehicles random g info r s)
     = previous_positions
         (fold (ship_control random) (get_list (ships r))
            (fold (tank_control random g info) (get_list (tanks r)) s))"
  by (simp add: vehicles_def fold_jets)

lemma vehicles_dom:
  "dom (previous_positions (vehicles random g info r s))
     = dom (previous_positions s) \<union> uid ` set (get_list (tanks r)) \<union> uid ` set (get_list (ships r))"
proof -
  let ?ts = "get_list (tanks r)" and ?ss = "get_list (ships r)"
  let ?s1 = "fold (tank_control random g info) ?ts s"
  let ?s2 = "fold (ship_control random) ?ss ?s1"
  have "u \<in> dom (previous_positions ?s2)
          \<longleftrightarrow> u \<in> dom (previous_positions s) \<union> uid ` set ?ts \<union> uid ` set ?ss" for u
  proof (cases "u \<in> uid ` set ?ss")
    case True
    then obtain a where "a \<in> set ?ss" "u = uid a" by blast
    then have "previous_positions ?s2 u \<noteq> None"
      using fold_vehicle_present [OF ship_control_step, of a ?ss random ?s1] by simp
    then show ?thesis using True by (simp add: domIff)
  next
    case False
    then have eq: "previous_positions ?s2 u = previous_positions ?s1 u"
      by (simp add: fold_vehicle_others [OF ship_control_step])
    show ?thesis
    proof (cases "u \<in> uid ` set ?ts")
      case True
      then obtain a where "a \<in> set ?ts" "u = uid a" by blast
      then have "previous_positions ?s1 u \<noteq> None"
        using fold_vehicle_present [OF tank_control_step, of a ?ts random g info s] by simp
      then show ?thesis using True eq by (simp add: domIff)
    next
      case no: False
      then have "previous_positions ?s1 u = previous_positions s u"
        by (simp add: fold_vehicle_others [OF tank_control_step])
      then show ?thesis using False no eq by (simp add: domIff)
    qed
  qed
  then have "dom (previous_positions ?s2)
               = dom (previous_positions s) \<union> uid ` set ?ts \<union> uid ` set ?ss"
    by (rule set_eqI)
  then show ?thesis by (simp only: vehicles_positions)
qed

lemma vehicles_recorded:
  assumes "distinct (map uid (get_list (tanks r)) @ map uid (get_list (ships r)))"
  shows "\<forall>tank\<in>set (get_list (tanks r)).
           previous_positions (vehicles random g info r s) (uid tank) = Some (position tank)"
    and "\<forall>ship\<in>set (get_list (ships r)).
           previous_positions (vehicles random g info r s) (uid ship) = Some (position ship)"
proof -
  let ?ts = "get_list (tanks r)" and ?ss = "get_list (ships r)"
  let ?s1 = "fold (tank_control random g info) ?ts s"
  have dt: "distinct (map uid ?ts)" and ds: "distinct (map uid ?ss)"
    and disj: "uid ` set ?ts \<inter> uid ` set ?ss = {}"
    using assms by auto
  show "\<forall>tank\<in>set ?ts.
           previous_positions (vehicles random g info r s) (uid tank) = Some (position tank)"
  proof
    fix tank assume mem: "tank \<in> set ?ts"
    then have "uid tank \<notin> uid ` set ?ss" using disj by blast
    then have "previous_positions (vehicles random g info r s) (uid tank)
                 = previous_positions ?s1 (uid tank)"
      by (simp add: vehicles_positions fold_vehicle_others [OF ship_control_step])
    then show "previous_positions (vehicles random g info r s) (uid tank) = Some (position tank)"
      by (simp add: fold_vehicle_recorded [OF tank_control_step dt mem])
  qed
  show "\<forall>ship\<in>set ?ss.
           previous_positions (vehicles random g info r s) (uid ship) = Some (position ship)"
    by (simp add: vehicles_positions fold_vehicle_recorded [OF ship_control_step ds])
qed

lemma raising_call_keeps_positions:
  assumes "fst (run random g t info s) \<noteq> None"
  shows "previous_positions (snd (run random g t info s)) = previous_positions s"
  using run_raises [OF assms] by (simp add: strategy_positions)

text \<open>
  Claim C10, as stated, fails for the calls that raise, since the positions are recorded in
  the loops over the vehicles, after the strategy: when the agent's record lacks
  \<^verbatim>\<open>"bases"\<close> the call ends with \<^verbatim>\<open>KeyError\<close> and the tank of the record has no entry
  afterwards.
\<close>

theorem unrecorded_tank_counterexample:
  "map_of no_bases CREATOR = Some (no_team\<lparr>tanks := Some [tank7], ships := Some [far_ship]\<rparr>)
   \<and> fst (run ramp never 0 no_bases init) = Some KeyError
   \<and> previous_positions (snd (run ramp never 0 no_bases init)) (uid tank7) = None"
  by (simp add: run_def eval_defs no_bases_def far_ship_def)

text \<open>
  Claim C10, amended to the calls that return. No call, returning or not, removes an entry
  of \<^verbatim>\<open>previous_positions\<close>. After a call that returns, its keys are the former ones and
  the uids of the tanks and ships of the agent's record, so a jet's uid enters only if a
  tank or a ship has it too; and, the uids of these tanks and ships being distinct, each is
  mapped to the position of its unit in this tick.
\<close>

theorem positions_recorded:
  "dom (previous_positions s) \<subseteq> dom (previous_positions (snd (run random g t info s)))
   \<and> (fst (run random g t info s) = None \<and> map_of info CREATOR = Some r \<longrightarrow>
         dom (previous_positions (snd (run random g t info s)))
           = dom (previous_positions s) \<union> uid ` set (get_list (tanks r))
               \<union> uid ` set (get_list (ships r))
         \<and> (distinct (map uid (get_list (tanks r)) @ map uid (get_list (ships r))) \<longrightarrow>
               (\<forall>tank\<in>set (get_list (tanks r)).
                  previous_positions (snd (run random g t info s)) (uid tank) = Some (position tank))
             \<and> (\<forall>ship\<in>set (get_list (ships r)).
                  previous_positions (snd (run random g t info s)) (uid ship) = Some (position ship))))"
proof -
  let ?s' = "snd (run random g t info s)"
  let ?s0 = "fold (body_at random t) (own_bases info) s"
  have b: "dom (previous_positions ?s')
             = dom (previous_positions s) \<union> uid ` set (get_list (tanks r))
                 \<union> uid ` set (get_list (ships r))"
    if "fst (run random g t info s) = None" "map_of info CREATOR = Some r"
    using run_returns [OF that] by (simp add: vehicles_dom strategy_positions)
  have c: "(\<forall>tank\<in>set (get_list (tanks r)).
              previous_positions ?s' (uid tank) = Some (position tank))
         \<and> (\<forall>ship\<in>set (get_list (ships r)).
              previous_positions ?s' (uid ship) = Some (position ship))"
    if "fst (run random g t info s) = None" "map_of info CREATOR = Some r"
      "distinct (map uid (get_list (tanks r)) @ map uid (get_list (ships r)))"
    using run_returns [OF that(1,2)] vehicles_recorded [OF that(3), of random g info ?s0]
    by simp
  have d: "dom (previous_positions s) \<subseteq> dom (previous_positions ?s')"
  proof (cases "fst (run random g t info s)")
    case None
    then obtain r' where r': "map_of info CREATOR = Some r'"
      by (cases "strategy (body_at random t) info s")
         (auto simp add: run_alt control_cases split: option.splits sum.splits)
    have "dom (previous_positions ?s')
             = dom (previous_positions s) \<union> uid ` set (get_list (tanks r'))
                 \<union> uid ` set (get_list (ships r'))"
      using run_returns [OF None r'] by (simp add: vehicles_dom strategy_positions)
    then show ?thesis by blast
  next
    case (Some e)
    then show ?thesis using raising_call_keeps_positions [of random g t info s] by simp
  qed
  show ?thesis
  proof (intro conjI impI)
    show "dom (previous_positions s) \<subseteq> dom (previous_positions ?s')" by (rule d)
  next
    assume h: "fst (run random g t info s) = None \<and> map_of info CREATOR = Some r"
    then show "dom (previous_positions ?s')
             = dom (previous_positions s) \<union> uid ` set (get_list (tanks r))
                 \<union> uid ` set (get_list (ships r))"
      using b by simp
  next
    assume h: "fst (run random g t info s) = None \<and> map_of info CREATOR = Some r"
      "distinct (map uid (get_list (tanks r)) @ map uid (get_list (ships r)))"
    then show "\<forall>tank\<in>set (get_list (tanks r)).
              previous_positions ?s' (uid tank) = Some (position tank)"
      using c by simp
  next
    assume h: "fst (run random g t info s) = None \<and> map_of info CREATOR = Some r"
      "distinct (map uid (get_list (tanks r)) @ map uid (get_list (ships r)))"
    then show "\<forall>ship\<in>set (get_list (ships r)).
              previous_positions ?s' (uid ship) = Some (position ship)"
      using c by simp
  qed
qed

theorem positions_recorded_witness:
  "fst (run ramp never 0 fleet init) = None \<and> map_of fleet CREATOR = Some fleet_team
   \<and> distinct (map uid (get_list (tanks fleet_team)) @ map uid (get_list (ships fleet_team)))
   \<and> dom (previous_positions init) \<subseteq> dom (previous_positions (snd (run ramp never 0 fleet init)))
   \<and> dom (previous_positions (snd (run ramp never 0 fleet init)))
        = dom (previous_positions init) \<union> uid ` set (get_list (tanks fleet_team))
            \<union> uid ` set (get_list (ships fleet_team))
   \<and> tank7 \<in> set (get_list (tanks fleet_team)) \<and> ship8 \<in> set (get_list (ships fleet_team))
   \<and> previous_positions (snd (run ramp never 0 fleet init)) (uid tank7) = Some (position tank7)
   \<and> previous_positions (snd (run ramp never 0 fleet init)) (uid ship8) = Some (position ship8)"
proof -
  have 2: "fst (run ramp never 0 fleet init) = None"
    by (simp add: run_def eval_defs fleet_def fleet_team_def)
  have 3: "map_of fleet CREATOR = Some fleet_team"
    by (simp add: fleet_def CREATOR_def)
  have 4: "distinct (map uid (get_list (tanks fleet_team)) @ map uid (get_list (ships fleet_team)))"
    by (simp add: fleet_team_def get_list_def tank7_def ship8_def)
  have 5: "tank7 \<in> set (get_list (tanks fleet_team))" "ship8 \<in> set (get_list (ships fleet_team))"
    by (simp_all add: fleet_team_def get_list_def)
  show ?thesis
    using 2 3 4 5
      positions_recorded [where s = init and random = ramp and g = never and t = 0
        and info = fleet and r = fleet_team]
    by simp blast
qed

section \<open>A stuck tank over two calls\<close>

lemma sets_heading_to_unit: "sets_heading u c \<Longrightarrow> to_unit u c"
  by (cases c) auto

lemma builds_not_heading: "builds v c \<Longrightarrow> \<not> sets_heading u c"
  by (cases c) auto

lemma tank_control_stuck:
  assumes "previous_positions s (uid tank) = Some (position tank)" and "\<not> stopped tank"
  shows "issued (tank_control random g info tank s)
           = issued s @ [Set_heading (uid tank) (random (draws s) * 360)]"
    and "draws (tank_control random g info tank s) = Suc (draws s)"
  using assms by (simp_all add: tank_control_def Let_def set_heading_def issue_def)

lemma tank_control_not_stuck:
  assumes "\<not> (previous_positions s (uid tank) = Some (position tank) \<and> \<not> stopped tank)"
  shows "\<exists>cs. issued (tank_control random g info tank s) = issued s @ cs
           \<and> filter (sets_heading u) cs = []"
  using assms
  by (auto simp add: tank_control_def Let_def set_heading_def issue_def
        split: option.splits list.splits)

text \<open>One call that returns, on a snapshot whose only tank is \<open>tank\<close>.\<close>

lemma run_single_tank:
  assumes own: "map_of info CREATOR = Some r" "tanks r = Some [tank]"
    and ships: "uid tank \<notin> uid ` set (get_list (ships r))"
    and ret: "run random g t info s = (None, s')"
  shows "previous_positions s' (uid tank) = Some (position tank)"
    and "\<exists>k. draws s \<le> k \<and> k \<le> draws s'
           \<and> (previous_positions s (uid tank) = Some (position tank) \<and> \<not> stopped tank \<longrightarrow>
                 k < draws s'
                 \<and> filter (sets_heading (uid tank)) (commands s s')
                     = [Set_heading (uid tank) (random k * 360)])
           \<and> (\<not> (previous_positions s (uid tank) = Some (position tank) \<and> \<not> stopped tank) \<longrightarrow>
                 filter (sets_heading (uid tank)) (commands s s') = [])"
proof -
  let ?u = "uid tank"
  let ?s0 = "fold (body_at random t) (own_bases info) s"
  let ?s1 = "tank_control random g info tank ?s0"
  let ?s2 = "fold (ship_control random) (get_list (ships r)) ?s1"
  have s': "s' = vehicles random g info r ?s0"
    using run_returns [of random g t info s r] own(1) ret by simp
  then have s'2: "s' = fold (jet_control (power_target info)) (get_list (jets r)) ?s2"
    using own(2) by (simp add: vehicles_def get_list_def)
  from fold_accounting [OF body_at_step, of random t "own_bases info" s]
  obtain cs0 where 0: "issued ?s0 = issued s @ cs0"
    "\<forall>c\<in>set cs0. \<exists>b\<in>set (own_bases info). builds (uid b) c"
    "previous_positions ?s0 = previous_positions s" "draws s \<le> draws ?s0"
    by blast
  from fold_vehicle [OF ship_control_step, of random "get_list (ships r)" ?s1]
  obtain cs2 where 2: "issued ?s2 = issued ?s1 @ cs2"
    "\<forall>c\<in>set cs2. \<exists>a\<in>set (get_list (ships r)). to_unit (uid a) c"
    "draws ?s1 \<le> draws ?s2"
    by blast
  let ?cs3 = "case power_target info of None \<Rightarrow> []
              | Some (tx, ty) \<Rightarrow> map (\<lambda>j. Goto (uid j) tx ty) (get_list (jets r))"
  have 3: "issued s' = issued ?s2 @ ?cs3" "draws s' = draws ?s2"
    "previous_positions s' = previous_positions ?s2"
    by (simp_all add: s'2 fold_jets)
  have f0: "filter (sets_heading ?u) cs0 = []"
    using 0(2) by (auto intro!: filter_none dest: builds_not_heading)
  have f2: "filter (sets_heading ?u) cs2 = []"
  proof (rule filter_none, rule ballI)
    fix c assume "c \<in> set cs2"
    then obtain a where a: "a \<in> set (get_list (ships r))" "to_unit (uid a) c" using 2(2) by blast
    then have "uid a \<noteq> ?u" using ships by (metis imageI)
    then show "\<not> sets_heading ?u c" using a(2) by (auto dest: sets_heading_to_unit to_unit_unique)
  qed
  have f3: "filter (sets_heading ?u) ?cs3 = []"
    by (auto intro!: filter_none split: option.splits)
  have "previous_positions ?s2 ?u = previous_positions ?s1 ?u"
    using ships by (simp add: fold_vehicle_others [OF ship_control_step])
  moreover have "previous_positions ?s1 ?u = Some (position tank)"
    by (simp add: tank_control_def Let_def)
  ultimately show "previous_positions s' (uid tank) = Some (position tank)"
    using 3(3) by simp
  have step: "draws ?s0 \<le> draws ?s1"
    using vehicle_stepD [OF tank_control_step, of random g info tank ?s0] by metis
  show "\<exists>k. draws s \<le> k \<and> k \<le> draws s'
           \<and> (previous_positions s (uid tank) = Some (position tank) \<and> \<not> stopped tank \<longrightarrow>
                 k < draws s'
                 \<and> filter (sets_heading (uid tank)) (commands s s')
                     = [Set_heading (uid tank) (random k * 360)])
           \<and> (\<not> (previous_positions s (uid tank) = Some (position tank) \<and> \<not> stopped tank) \<longrightarrow>
                 filter (sets_heading (uid tank)) (commands s s') = [])"
  proof (cases "previous_positions s (uid tank) = Some (position tank) \<and> \<not> stopped tank")
    case True
    then have tr: "previous_positions ?s0 ?u = Some (position tank)" "\<not> stopped tank"
      using 0(3) by simp_all
    have 1: "issued ?s1 = issued ?s0 @ [Set_heading ?u (random (draws ?s0) * 360)]"
      "draws ?s1 = Suc (draws ?s0)"
      using tank_control_stuck [OF tr] by simp_all
    have "commands s s' = cs0 @ [Set_heading ?u (random (draws ?s0) * 360)] @ cs2 @ ?cs3"
      using 0(1) 1(1) 2(1) 3(1) by (simp add: commandsI)
    then have "filter (sets_heading ?u) (commands s s') = [Set_heading ?u (random (draws ?s0) * 360)]"
      using f0 f2 f3 by simp
    moreover have "draws ?s0 < draws s'" using 1(2) 2(3) 3(2) by simp
    ultimately show ?thesis using True 0(4) by (intro exI [of _ "draws ?s0"]) simp
  next
    case False
    then have "\<not> (previous_positions ?s0 ?u = Some (position tank) \<and> \<not> stopped tank)"
      using 0(3) by simp
    from tank_control_not_stuck [OF this, of random g info ?u]
    obtain cs1 where 1: "issued ?s1 = issued ?s0 @ cs1" "filter (sets_heading ?u) cs1 = []"
      by blast
    have "commands s s' = cs0 @ cs1 @ cs2 @ ?cs3"
      using 0(1) 1(1) 2(1) 3(1) by (simp add: commandsI)
    then have "filter (sets_heading ?u) (commands s s') = []"
      using f0 1(2) f2 f3 by simp
    moreover have "draws ?s0 \<le> draws s'" using step 2(3) 3(2) by simp
    ultimately show ?thesis using False 0(4) by (intro exI [of _ "draws ?s0"]) simp
  qed
qed

text \<open>
  Claim C9, as stated, fails for a new agent: in its first call the tank is not yet in
  \<^verbatim>\<open>previous_positions\<close>, the test \<^verbatim>\<open>tank.uid in self.previous_positions\<close> is false and
  no heading is set. Two calls give one \<^verbatim>\<open>set_heading\<close>, not two.
\<close>

theorem fresh_agent_counterexample:
  "position tank7 = (3, 4) \<and> \<not> stopped tank7
   \<and> fst (run ramp never 0 patrol init) = None
   \<and> fst (run ramp never 1 patrol (once init)) = None
   \<and> filter (sets_heading 7) (commands init (once init)) = []
   \<and> filter (sets_heading 7) (commands (once init) (twice init)) = [Set_heading 7 0]"
  by (simp add: twice_def once_def run_def eval_defs patrol_def)

text \<open>
  Claim C9, amended. Take two successive calls that return, on snapshots whose only tank of
  the agent is the same tank, at the same position and not stopped, no ship of the agent
  having its uid. The second call issues exactly one \<^verbatim>\<open>set_heading\<close> on the tank. The
  first issues exactly one if the agent had the tank recorded at that position, and none
  otherwise, as for a new agent. Each heading is 360 times a draw made during its own call,
  so the second uses a later draw than the first: no value is kept from one call to the
  next.
\<close>

theorem stuck_tank_twice:
  assumes "map_of info1 CREATOR = Some r1" and "tanks r1 = Some [tank1]"
    and "uid tank1 \<notin> uid ` set (get_list (ships r1))"
    and "map_of info2 CREATOR = Some r2" and "tanks r2 = Some [tank2]"
    and "uid tank2 \<notin> uid ` set (get_list (ships r2))"
    and "uid tank2 = uid tank1" and "position tank2 = position tank1"
    and "\<not> stopped tank1" and "\<not> stopped tank2"
    and "run random g t1 info1 s = (None, s1)" and "run random g t2 info2 s1 = (None, s2)"
  shows "(\<exists>k2\<ge>draws s1. k2 < draws s2
           \<and> filter (sets_heading (uid tank1)) (commands s1 s2)
               = [Set_heading (uid tank1) (random k2 * 360)])
    \<and> (previous_positions s (uid tank1) = Some (position tank1) \<longrightarrow>
          (\<exists>k1\<ge>draws s. k1 < draws s1
             \<and> filter (sets_heading (uid tank1)) (commands s s1)
                 = [Set_heading (uid tank1) (random k1 * 360)]))
    \<and> (previous_positions s (uid tank1) \<noteq> Some (position tank1) \<longrightarrow>
          filter (sets_heading (uid tank1)) (commands s s1) = [])"
proof -
  have rec: "previous_positions s1 (uid tank2) = Some (position tank2)"
    using run_single_tank(1) [OF assms(1,2,3,11)] assms(7,8) by simp
  from run_single_tank(2) [OF assms(4,5,6,12)] rec assms(10)
  have second: "\<exists>k2\<ge>draws s1. k2 < draws s2
           \<and> filter (sets_heading (uid tank1)) (commands s1 s2)
               = [Set_heading (uid tank1) (random k2 * 360)]"
    using assms(7) by auto
  from run_single_tank(2) [OF assms(1,2,3,11)] assms(9)
  have first: "previous_positions s (uid tank1) = Some (position tank1) \<longrightarrow>
          (\<exists>k1\<ge>draws s. k1 < draws s1
             \<and> filter (sets_heading (uid tank1)) (commands s s1)
                 = [Set_heading (uid tank1) (random k1 * 360)])"
    "previous_positions s (uid tank1) \<noteq> Some (position tank1) \<longrightarrow>
          filter (sets_heading (uid tank1)) (commands s s1) = []"
    by auto
  show ?thesis using second first by (intro conjI)
qed

theorem stuck_tank_twice_witness:
  "previous_positions stuck (uid tank7) = Some (position tank7)
   \<and> previous_positions init (uid tank7) \<noteq> Some (position tank7)
   \<and> run ramp never 0 patrol stuck = (None, once stuck)
   \<and> run ramp never 1 patrol (once stuck) = (None, twice stuck)
   \<and> run ramp never 0 patrol init = (None, once init)
   \<and> run ramp never 1 patrol (once init) = (None, twice init)
   \<and> (\<exists>k1\<ge>draws stuck. k1 < draws (once stuck)
         \<and> filter (sets_heading (uid tank7)) (commands stuck (once stuck))
             = [Set_heading (uid tank7) (ramp k1 * 360)])
   \<and> (\<exists>k2\<ge>draws (once stuck). k2 < draws (twice stuck)
         \<and> filter (sets_heading (uid tank7)) (commands (once stuck) (twice stuck))
             = [Set_heading (uid tank7) (ramp k2 * 360)])
   \<and> filter (sets_heading (uid tank7)) (commands init (once init)) = []
   \<and> (\<exists>k2\<ge>draws (once init). k2 < draws (twice init)
         \<and> filter (sets_heading (uid tank7)) (commands (once init) (twice init))
             = [Set_heading (uid tank7) (ramp k2 * 360)])"
proof -
  let ?r = "no_team\<lparr>bases := Some [], tanks := Some [tank7]\<rparr>"
  have 1: "map_of patrol CREATOR = Some ?r" by (simp add: patrol_def CREATOR_def)
  have 2: "tanks ?r = Some [tank7]" by simp
  have 3: "uid tank7 \<notin> uid ` set (get_list (ships ?r))" by (simp add: no_team_def get_list_def)
  have 4: "uid tank7 = uid tank7" "position tank7 = position tank7" by simp_all
  have 5: "\<not> stopped tank7" by (simp add: tank7_def)
  have a: "run ramp never 0 patrol stuck = (None, once stuck)"
    "run ramp never 0 patrol init = (None, once init)"
    by (simp_all add: once_def run_def eval_defs patrol_def stuck_def)
  have b: "run ramp never 1 patrol (once stuck) = (None, twice stuck)"
    "run ramp never 1 patrol (once init) = (None, twice init)"
    by (simp_all add: twice_def once_def run_def eval_defs patrol_def stuck_def)
  have c: "previous_positions stuck (uid tank7) = Some (position tank7)"
    "previous_positions init (uid tank7) \<noteq> Some (position tank7)"
    by (simp_all add: stuck_def init_def tank7_def)
  show ?thesis
    using a b c
      stuck_tank_twice [OF 1 2 3 1 2 3 4 5 5 a(1) b(1)]
      stuck_tank_twice [OF 1 2 3 1 2 3 4 5 5 a(2) b(2)]
    by simp
qed

section \<open>The target of the jets, when the call returns\<close>

lemma sorted_le_last:
  fixes xs :: "real list"
  shows "sorted xs \<Longrightarrow> a \<in> set xs \<Longrightarrow> a \<le> last xs"
  by (induction xs) auto

lemma sort_key_last:
  fixes f :: "'a \<Rightarrow> real"
  assumes "xs \<noteq> []"
  shows "last (sort_key f xs) \<in> set xs \<and> (\<forall>a\<in>set xs. f a \<le> f (last (sort_key f xs)))"
proof -
  let ?ys = "sort_key f xs"
  have ne: "?ys \<noteq> []"
  proof
    assume "?ys = []"
    then have "set ?ys = {}" by simp
    then show False using assms by simp
  qed
  then have mem: "last ?ys \<in> set xs" using last_in_set [OF ne] by simp
  have srt: "sorted (map f ?ys)" by (rule sorted_sort_key)
  have "f a \<le> f (last ?ys)" if "a \<in> set xs" for a
  proof -
    have "f a \<in> set (map f ?ys)" using that by simp
    then have "f a \<le> last (map f ?ys)" using srt by (simp add: sorted_le_last)
    then show ?thesis using ne by (simp add: last_map)
  qed
  then show ?thesis using mem by blast
qed

text \<open>Within a team: the base of greatest score, or \<open>(75, 75)\<close> when there is none.\<close>

lemma base_target_ranked:
  "get_list (bases r) = [] \<Longrightarrow> base_target r = (75, 75)"
  "get_list (bases r) \<noteq> [] \<Longrightarrow>
     \<exists>b\<in>set (get_list (bases r)).
       (\<forall>b'\<in>set (get_list (bases r)). determine_base_power b' \<le> determine_base_power b)
       \<and> base_target r = (x b, y b)"
proof -
  show "base_target r = (75, 75)" if "get_list (bases r) = []"
    using that by (simp add: base_target_def get_list_def split: option.splits)
  show "\<exists>b\<in>set (get_list (bases r)).
       (\<forall>b'\<in>set (get_list (bases r)). determine_base_power b' \<le> determine_base_power b)
       \<and> base_target r = (x b, y b)" if ne: "get_list (bases r) \<noteq> []"
  proof -
    obtain bs where bs: "bases r = Some bs" "bs \<noteq> []"
      using ne by (auto simp add: get_list_def split: option.splits)
    let ?ys = "sort_key determine_base_power bs"
    have "?ys \<noteq> []"
    proof
      assume "?ys = []"
      then have "set ?ys = {}" by simp
      then show False using bs(2) by simp
    qed
    then have "base_target r = (x (last ?ys), y (last ?ys))"
      using bs(1) by (simp add: base_target_def split: list.splits)
    then show ?thesis
      using sort_key_last [OF bs(2), of determine_base_power] bs(1)
      by (simp add: get_list_def) blast
  qed
qed

text \<open>Among the teams: none without an enemy, else a team of greatest score.\<close>

lemma power_target_ranked:
  "enemy_teams info = [] \<Longrightarrow> power_target info = None"
  "length info > 1 \<Longrightarrow> enemy_teams info \<noteq> [] \<Longrightarrow>
     \<exists>r\<in>set (enemy_teams info).
       (\<forall>r'\<in>set (enemy_teams info). determine_power r' \<le> determine_power r)
       \<and> power_target info = Some (base_target r)"
proof -
  show "power_target info = None" if "enemy_teams info = []"
    using that by (simp add: power_target_alt)
  show "\<exists>r\<in>set (enemy_teams info).
       (\<forall>r'\<in>set (enemy_teams info). determine_power r' \<le> determine_power r)
       \<and> power_target info = Some (base_target r)"
    if "length info > 1" "enemy_teams info \<noteq> []"
  proof -
    let ?ys = "sort_key determine_power (enemy_teams info)"
    have "?ys \<noteq> []"
    proof
      assume "?ys = []"
      then have "set ?ys = {}" by simp
      then show False using that(2) by simp
    qed
    then have "power_target info = Some (base_target (last ?ys))"
      using that(1) by (simp add: power_target_alt split: list.splits)
    then show ?thesis
      using sort_key_last [OF that(2), of determine_power] by blast
  qed
qed

lemma fold_issued_all:
  assumes "\<And>a s. \<exists>cs. issued (f a s) = issued s @ cs \<and> (\<forall>c\<in>set cs. P c)"
  shows "\<exists>cs. issued (fold f as s) = issued s @ cs \<and> (\<forall>c\<in>set cs. P c)"
proof (induction as arbitrary: s)
  case Nil
  show ?case by simp
next
  case (Cons a as)
  obtain cs1 where 1: "issued (f a s) = issued s @ cs1" "\<forall>c\<in>set cs1. P c"
    using assms [of a s] by blast
  obtain cs2 where 2: "issued (fold f as (f a s)) = issued (f a s) @ cs2" "\<forall>c\<in>set cs2. P c"
    using Cons.IH [of "f a s"] by blast
  have "issued (fold f (a # as) s) = issued s @ (cs1 @ cs2)" using 1(1) 2(1) by simp
  moreover have "\<forall>c\<in>set (cs1 @ cs2). P c" using 1(2) 2(2) by auto
  ultimately show ?case by blast
qed

lemma body_at_no_goto:
  "\<exists>cs. issued (body_at random t b s) = issued s @ cs \<and> (\<forall>c\<in>set cs. \<not> is_goto c)"
  by (auto simp add: body_at_def early_base_def midgame_base_def lategame_base_def Let_def
        register_other issue_def build_def add_tank_def add_ship_def)

lemma tank_control_no_goto:
  "\<exists>cs. issued (tank_control random g info tank s) = issued s @ cs \<and> (\<forall>c\<in>set cs. \<not> is_goto c)"
  by (auto simp add: tank_control_def Let_def set_heading_def issue_def
        split: option.splits list.splits)

lemma ship_control_no_goto:
  "\<exists>cs. issued (ship_control random ship s) = issued s @ cs \<and> (\<forall>c\<in>set cs. \<not> is_goto c)"
  by (auto simp add: ship_control_def Let_def set_heading_def issue_def split: option.splits)

text \<open>
  In a call that returns, the \<^verbatim>\<open>goto\<close> commands to jets are exactly one per jet of the
  agent's record, in order, each with the coordinates of \<open>power_target\<close>; none when there is
  no target.
\<close>

lemma jets_follow_power_target:
  assumes "run random g t info s = (None, s')" and "map_of info CREATOR = Some r"
  shows "filter is_goto (commands s s')
           = (case power_target info of
                None \<Rightarrow> []
              | Some (tx, ty) \<Rightarrow> map (\<lambda>j. Goto (uid j) tx ty) (get_list (jets r)))"
proof -
  let ?s0 = "fold (body_at random t) (own_bases info) s"
  let ?s1 = "fold (tank_control random g info) (get_list (tanks r)) ?s0"
  let ?s2 = "fold (ship_control random) (get_list (ships r)) ?s1"
  let ?cs3 = "case power_target info of None \<Rightarrow> []
              | Some (tx, ty) \<Rightarrow> map (\<lambda>j. Goto (uid j) tx ty) (get_list (jets r))"
  have "s' = vehicles random g info r ?s0"
    using run_returns [of random g t info s r] assms by simp
  then have 3: "issued s' = issued ?s2 @ ?cs3"
    by (simp add: vehicles_def fold_jets)
  obtain cs0 where 0: "issued ?s0 = issued s @ cs0" "\<forall>c\<in>set cs0. \<not> is_goto c"
    using fold_issued_all [of "body_at random t" "\<lambda>c. \<not> is_goto c", OF body_at_no_goto] by blast
  obtain cs1 where 1: "issued ?s1 = issued ?s0 @ cs1" "\<forall>c\<in>set cs1. \<not> is_goto c"
    using fold_issued_all [of "tank_control random g info" "\<lambda>c. \<not> is_goto c",
        OF tank_control_no_goto] by blast
  obtain cs2 where 2: "issued ?s2 = issued ?s1 @ cs2" "\<forall>c\<in>set cs2. \<not> is_goto c"
    using fold_issued_all [of "ship_control random" "\<lambda>c. \<not> is_goto c",
        OF ship_control_no_goto] by blast
  have "commands s s' = cs0 @ cs1 @ cs2 @ ?cs3"
    using 0(1) 1(1) 2(1) 3 by (simp add: commandsI)
  moreover have "filter is_goto cs0 = []" "filter is_goto cs1 = []" "filter is_goto cs2 = []"
    using 0(2) 1(2) 2(2) by (simp_all add: filter_none)
  moreover have "filter is_goto ?cs3 = ?cs3"
    by (auto intro!: filter_all split: option.splits)
  ultimately show ?thesis by simp
qed

text \<open>
  Claim C4 holds of every call that returns, by the three lemmas above. It fails at a
  snapshot where an enemy team has an empty list of bases. Lines 109 to 130 give the target
  \<open>(75, 75)\<close> there, and the jet would be sent to it; but the computation of lines 58 to
  67, whose result is never used, has already raised \<^verbatim>\<open>IndexError\<close> on
  \<^verbatim>\<open>info[name]["bases"][0]\<close>, and no jet gets a command.
\<close>

theorem empty_enemy_bases_raise:
  "map_of empty_enemy ''Enemy'' = Some (no_team\<lparr>bases := Some []\<rparr>)
   \<and> power_target empty_enemy = Some (75, 75)
   \<and> fst (run ramp never 0 empty_enemy init) = Some IndexError
   \<and> commands init (snd (run ramp never 0 empty_enemy init)) = []"
  by (simp add: run_def eval_defs empty_enemy_def)

section \<open>The vehicles in a call that returns\<close>

text \<open>
  The commands a call that returns addresses to a vehicle: those of the loop over the
  tanks, of the loop over the ships and of the loop over the jets, in this order; the
  strategy addresses none.
\<close>

lemma run_split:
  assumes "fst (run random g t info s) = None" and "map_of info CREATOR = Some r"
  shows "filter (to_unit u) (commands s (snd (run random g t info s)))
    = filter (to_unit u)
        (commands (fold (body_at random t) (own_bases info) s)
           (fold (tank_control random g info) (get_list (tanks r))
              (fold (body_at random t) (own_bases info) s)))
      @ filter (to_unit u)
          (commands (fold (tank_control random g info) (get_list (tanks r))
                       (fold (body_at random t) (own_bases info) s))
             (fold (ship_control random) (get_list (ships r))
                (fold (tank_control random g info) (get_list (tanks r))
                   (fold (body_at random t) (own_bases info) s))))
      @ filter (to_unit u)
          (case power_target info of None \<Rightarrow> []
           | Some (tx, ty) \<Rightarrow> map (\<lambda>j. Goto (uid j) tx ty) (get_list (jets r)))"
proof -
  let ?s' = "snd (run random g t info s)"
  let ?s0 = "fold (body_at random t) (own_bases info) s"
  let ?s1 = "fold (tank_control random g info) (get_list (tanks r)) ?s0"
  let ?s2 = "fold (ship_control random) (get_list (ships r)) ?s1"
  let ?cs3 = "case power_target info of None \<Rightarrow> []
              | Some (tx, ty) \<Rightarrow> map (\<lambda>j. Goto (uid j) tx ty) (get_list (jets r))"
  have "?s' = vehicles random g info r ?s0"
    by (rule run_returns [OF assms])
  then have 3: "issued ?s' = issued ?s2 @ ?cs3"
    by (simp add: vehicles_def fold_jets)
  from fold_accounting [OF body_at_step, of random t "own_bases info" s]
  obtain cs0 where 0: "issued ?s0 = issued s @ cs0"
    "\<forall>c\<in>set cs0. \<exists>b\<in>set (own_bases info). builds (uid b) c"
    by blast
  from fold_vehicle [OF tank_control_step, of random g info "get_list (tanks r)" ?s0]
  obtain cs1 where 1: "issued ?s1 = issued ?s0 @ cs1" by blast
  from fold_vehicle [OF ship_control_step, of random "get_list (ships r)" ?s1]
  obtain cs2 where 2: "issued ?s2 = issued ?s1 @ cs2" by blast
  have "filter (to_unit u) cs0 = []"
    using 0(2) by (auto intro!: filter_none dest: to_unit_not_builds)
  moreover have "commands s ?s' = cs0 @ cs1 @ cs2 @ ?cs3"
    using 0(1) 1 2 3 by (simp add: commandsI)
  moreover have "commands ?s0 ?s1 = cs1" "commands ?s1 ?s2 = cs2"
    using 1 2 by (simp_all add: commandsI)
  ultimately show ?thesis by simp
qed

lemma fold_vehicle_silent:
  assumes "vehicle_step f" and "u \<notin> uid ` set as"
  shows "filter (to_unit u) (commands s (fold f as s)) = []"
proof -
  from fold_vehicle [OF assms(1), of as s]
  obtain cs where cs: "issued (fold f as s) = issued s @ cs"
    "\<forall>c\<in>set cs. \<exists>a\<in>set as. to_unit (uid a) c"
    by blast
  have "\<forall>c\<in>set cs. \<not> to_unit u c"
  proof
    fix c assume "c \<in> set cs"
    then obtain a where a: "a \<in> set as" "to_unit (uid a) c" using cs(2) by blast
    then have "uid a \<noteq> u" using assms(2) by (metis imageI)
    then show "\<not> to_unit u c" using a(2) by (auto dest: to_unit_unique)
  qed
  then have "filter (to_unit u) cs = []" by (rule filter_none)
  then show ?thesis using cs(1) by (simp add: commandsI)
qed

lemma jets_silent:
  assumes "u \<notin> uid ` set js"
  shows "filter (to_unit u)
           (case target of None \<Rightarrow> [] | Some (tx, ty) \<Rightarrow> map (\<lambda>j. Goto (uid j) tx ty) js) = []"
  using assms by (auto intro!: filter_none split: option.splits)

lemma distinct3:
  assumes "distinct (as @ bs @ cs)"
  shows "distinct as" "distinct bs" "distinct (as @ bs)"
    "set as \<inter> set bs = {}" "set as \<inter> set cs = {}" "set bs \<inter> set cs = {}"
  using assms by auto

section \<open>Tanks, in a call\<close>




section \<open>Ships, in a call\<close>

text \<open>
  Claim C6, as stated, fails for the calls that raise: when the agent's record lacks
  \<^verbatim>\<open>"bases"\<close> the call ends with \<^verbatim>\<open>KeyError\<close> before the loop over the ships, and a ship
  at its recorded position, more than 20 away from its owner, is not converted.
\<close>

theorem ship_unreached_counterexample:
  "map_of no_bases CREATOR = Some (no_team\<lparr>tanks := Some [tank7], ships := Some [far_ship]\<rparr>)
   \<and> previous_positions stuck (uid far_ship) = Some (position far_ship)
   \<and> get_distance far_ship (x (owner far_ship)) (y (owner far_ship)) > 20
   \<and> fst (run ramp never 1 no_bases stuck) = Some KeyError
   \<and> filter (to_unit (uid far_ship)) (commands stuck (snd (run ramp never 1 no_bases stuck))) = []"
  by (simp add: run_def eval_defs no_bases_def stuck_def far_ship_def)

text \<open>
  Claim C6, amended to the calls that return, the uids of the agent's tanks, ships and jets
  being distinct and the random generator having its values in \<open>[0, 1)\<close>. A ship of the
  agent's record whose position is the recorded one is issued in the call, when
  \<^verbatim>\<open>get_distance\<close> to its owner exceeds 20, exactly one \<^verbatim>\<open>convert_to_base\<close> and nothing
  else; otherwise exactly one \<^verbatim>\<open>set_heading\<close> with a value in \<open>[0, 360)\<close> and nothing else.
  Every ship of the record has its position recorded at the end of the call.
\<close>

theorem ship_heuristic:
  assumes "\<forall>n. 0 \<le> random n \<and> random n < 1"
    and "fst (run random g t info s) = None" and "map_of info CREATOR = Some r"
    and "distinct (map uid (get_list (tanks r)) @ map uid (get_list (ships r))
                     @ map uid (get_list (jets r)))"
    and "ship \<in> set (get_list (ships r))"
  shows "previous_positions (snd (run random g t info s)) (uid ship) = Some (position ship)
    \<and> (previous_positions s (uid ship) = Some (position ship) \<longrightarrow>
          (get_distance ship (x (owner ship)) (y (owner ship)) > 20 \<longrightarrow>
             filter (to_unit (uid ship)) (commands s (snd (run random g t info s)))
               = [Convert_to_base (uid ship)])
        \<and> (\<not> get_distance ship (x (owner ship)) (y (owner ship)) > 20 \<longrightarrow>
             (\<exists>h. 0 \<le> h \<and> h < 360
                \<and> filter (to_unit (uid ship)) (commands s (snd (run random g t info s)))
                    = [Set_heading (uid ship) h])))"
proof -
  let ?ts = "get_list (tanks r)" and ?ss = "get_list (ships r)" and ?js = "get_list (jets r)"
  let ?s' = "snd (run random g t info s)"
  let ?s0 = "fold (body_at random t) (own_bases info) s"
  let ?s1 = "fold (tank_control random g info) ?ts ?s0"
  let ?s2 = "fold (ship_control random) ?ss ?s1"
  have ds: "distinct (map uid ?ss)" and dts: "distinct (map uid ?ts @ map uid ?ss)"
    and ts: "set (map uid ?ts) \<inter> set (map uid ?ss) = {}"
    and sj: "set (map uid ?ss) \<inter> set (map uid ?js) = {}"
    using distinct3 [OF assms(4)] by simp_all
  have mem: "uid ship \<in> set (map uid ?ss)" using assms(5) by simp
  have nt: "uid ship \<notin> uid ` set ?ts" using ts mem by auto
  have nj: "uid ship \<notin> uid ` set ?js" using sj mem by auto
  have "?s' = vehicles random g info r ?s0"
    by (rule run_returns [OF assms(2,3)])
  then have rec: "previous_positions ?s' (uid ship) = Some (position ship)"
    using vehicles_recorded(2) [OF dts, of random g info ?s0] assms(5) by simp
  have "filter (to_unit (uid ship)) (commands ?s0 ?s1) = []"
    by (rule fold_vehicle_silent [OF tank_control_step nt])
  then have cmds: "filter (to_unit (uid ship)) (commands s ?s')
                     = filter (to_unit (uid ship)) (commands ?s1 ?s2)"
    using run_split [OF assms(2,3), of "uid ship"] jets_silent [OF nj, of "power_target info"]
    by simp
  have "previous_positions ?s1 (uid ship) = previous_positions ?s0 (uid ship)"
    by (rule fold_vehicle_others [OF tank_control_step nt])
  then have prev: "previous_positions ?s1 (uid ship) = previous_positions s (uid ship)"
    by (simp add: strategy_positions)
  show ?thesis
    using rec ship_loop [OF assms(1) ds assms(5), of ?s1]
    by (simp only: cmds prev) simp
qed

theorem ship_heuristic_witness:
  "(\<forall>n. 0 \<le> ramp n \<and> ramp n < 1)
   \<and> fst (run ramp never 0 fleet stuck) = None \<and> fst (run ramp never 0 far_fleet stuck) = None
   \<and> map_of fleet CREATOR = Some fleet_team \<and> map_of far_fleet CREATOR = Some far_fleet_team
   \<and> ship8 \<in> set (get_list (ships fleet_team))
   \<and> far_ship \<in> set (get_list (ships far_fleet_team))
   \<and> previous_positions stuck (uid ship8) = Some (position ship8)
   \<and> previous_positions stuck (uid far_ship) = Some (position far_ship)
   \<and> \<not> get_distance ship8 (x (owner ship8)) (y (owner ship8)) > 20
   \<and> get_distance far_ship (x (owner far_ship)) (y (owner far_ship)) > 20
   \<and> previous_positions (snd (run ramp never 0 fleet stuck)) (uid ship8) = Some (position ship8)
   \<and> (\<exists>h. 0 \<le> h \<and> h < 360
        \<and> filter (to_unit (uid ship8)) (commands stuck (snd (run ramp never 0 fleet stuck)))
            = [Set_heading (uid ship8) h])
   \<and> filter (to_unit (uid far_ship)) (commands stuck (snd (run ramp never 0 far_fleet stuck)))
        = [Convert_to_base (uid far_ship)]"
proof -
  have 1: "\<forall>n. 0 \<le> ramp n \<and> ramp n < 1" by (simp add: ramp_def)
  have 2: "fst (run ramp never 0 fleet stuck) = None"
    "fst (run ramp never 0 far_fleet stuck) = None"
    by (simp_all add: run_def eval_defs fleet_def fleet_team_def far_fleet_def far_fleet_team_def
          far_ship_def stuck_def)
  have 3: "map_of fleet CREATOR = Some fleet_team" "map_of far_fleet CREATOR = Some far_fleet_team"
    by (simp_all add: fleet_def far_fleet_def CREATOR_def)
  have 4: "distinct (map uid (get_list (tanks fleet_team)) @ map uid (get_list (ships fleet_team))
                       @ map uid (get_list (jets fleet_team)))"
    "distinct (map uid (get_list (tanks far_fleet_team)) @ map uid (get_list (ships far_fleet_team))
                       @ map uid (get_list (jets far_fleet_team)))"
    by (simp_all add: fleet_team_def far_fleet_team_def get_list_def tank7_def ship8_def jet9_def
          far_ship_def)
  have 5: "ship8 \<in> set (get_list (ships fleet_team))"
    "far_ship \<in> set (get_list (ships far_fleet_team))"
    by (simp_all add: fleet_team_def far_fleet_team_def get_list_def)
  have 6: "previous_positions stuck (uid ship8) = Some (position ship8)"
    "previous_positions stuck (uid far_ship) = Some (position far_ship)"
    "\<not> get_distance ship8 (x (owner ship8)) (y (owner ship8)) > 20"
    "get_distance far_ship (x (owner far_ship)) (y (owner far_ship)) > 20"
    by (simp_all add: stuck_def init_def ship8_def far_ship_def home_def)
  show ?thesis
    using 1 2 3 5 6
      ship_heuristic [OF 1 2(1) 3(1) 4(1) 5(1)]
      ship_heuristic [OF 1 2(2) 3(2) 4(2) 5(2)]
    by simp
qed

section \<open>The late phase\<close>

lemma lategame_base_jets:
  "\<exists>cs. issued (lategame_base random b s) = issued s @ cs
     \<and> (\<forall>c\<in>set cs. \<exists>h. c = Build_jet (uid b) h)"
  by (auto simp add: lategame_base_def Let_def register_other issue_def build_def)

text \<open>From 360 seconds on, every construction a call issues is a jet.\<close>

lemma late_only_jets:
  assumes "360 \<le> t" and "c \<in> set (commands s (snd (run random g t info s)))" and "builds u c"
  shows "\<exists>h. c = Build_jet u h"
proof -
  let ?s0 = "fold (body_at random t) (own_bases info) s"
  have body: "body_at random t = lategame_base random"
    using assms(1) by (simp add: body_at_def)
  have "\<exists>cs. issued (lategame_base random b s) = issued s @ cs
          \<and> (\<forall>c\<in>set cs. \<exists>v h. c = Build_jet v h)" for b s
    using lategame_base_jets [of random b s] by blast
  from fold_issued_all [of "lategame_base random" "\<lambda>c. \<exists>v h. c = Build_jet v h", OF this]
  obtain cs0 where 0: "issued ?s0 = issued s @ cs0" "\<forall>c\<in>set cs0. \<exists>v h. c = Build_jet v h"
    unfolding body by blast
  from run_frame [of random g t info s]
  obtain cs1 where 1: "issued (snd (run random g t info s)) = issued ?s0 @ cs1"
    "\<forall>c\<in>set cs1. \<forall>u. \<not> builds u c"
    by blast
  have "commands s (snd (run random g t info s)) = cs0 @ cs1"
    using 0(1) 1(1) by (simp add: commandsI)
  then have "c \<in> set cs0" using assms(2,3) 1(2) by auto
  then obtain v h where "c = Build_jet v h" using 0(2) by blast
  then show ?thesis using assms(3) by simp
qed

end
